theory Spec2Isabelle
  imports Complex_Main "HOL-Library.Word" "HOL-Library.Monad_Syntax"
begin

unbundle bit_operations_syntax

section \<open>Platform model: strings and numbers of the JavaScript runtime\<close>

text \<open>
  A JavaScript string is modelled as a \<^typ>\<open>string\<close>: a list of code units below 256
  (the Latin-1 range of UTF-16). A JavaScript number that holds a double is modelled by
  its IEEE-754 binary64 bit pattern, a \<^typ>\<open>64 word\<close>; a number that holds the result
  of a 32-bit bitwise operator is an \<^typ>\<open>int\<close> read off a \<^typ>\<open>32 word\<close>
  (\<open>>>>\<close> yields an unsigned value, \<open>&\<close> a signed one).
\<close>

type_synonym double = "64 word"

text \<open>\<open>WhiteSpace\<close> and \<open>LineTerminator\<close> of ECMAScript, below code unit 256:
  TAB, LF, VT, FF, CR, SP and NBSP.\<close>

definition isWhiteSpace :: "char \<Rightarrow> bool" where
  "isWhiteSpace c = (of_char c \<in> {9, 10, 11, 12, 13, 32, 160 :: nat})"

text \<open>\<open>String.prototype.slice(start, end)\<close> and \<open>slice(start)\<close> for non-negative
  integer arguments: both ends are clamped to the length.\<close>

definition slice :: "string \<Rightarrow> nat \<Rightarrow> nat \<Rightarrow> string" where
  "slice s start end = take (end - start) (drop start s)"

definition sliceFrom :: "string \<Rightarrow> nat \<Rightarrow> string" where
  "sliceFrom s start = drop start s"

text \<open>\<open>String.prototype.padStart(n, "0")\<close> with a one-character filler, and
  \<open>"0".repeat(n)\<close>.\<close>

definition padStart :: "nat \<Rightarrow> char \<Rightarrow> string \<Rightarrow> string" where
  "padStart n c s = replicate (n - length s) c @ s"

definition repeat :: "char \<Rightarrow> nat \<Rightarrow> string" where
  "repeat c n = replicate n c"

text \<open>\<open>Array.prototype.join(sep)\<close> on an array of strings.\<close>

fun join :: "string \<Rightarrow> string list \<Rightarrow> string" where
  "join sep [] = []"
| "join sep [x] = x"
| "join sep (x # y # ys) = x @ sep @ join sep (y # ys)"

text \<open>The digit characters of \<open>Number.prototype.toString(radix)\<close>.\<close>

definition digitChar :: "nat \<Rightarrow> char" where
  "digitChar d = ''0123456789abcdefghijklmnopqrstuvwxyz'' ! (d mod 36)"

text \<open>\<open>Number.prototype.toString(radix)\<close> on a non-negative integer. JavaScript
  raises a RangeError for a radix outside 2..36; the program only uses 2 and 16, and the
  model returns the single digit there.\<close>

function toStringRadix :: "nat \<Rightarrow> nat \<Rightarrow> string" where
  "toStringRadix radix n =
     (if n < radix \<or> radix < 2 then [digitChar n]
      else toStringRadix radix (n div radix) @ [digitChar (n mod radix)])"
  by pat_completeness auto
termination
  by (relation "measure (\<lambda>(radix, n). n)") auto

text \<open>\<open>parseInt(s, 2)\<close>: leading white space is skipped, an optional sign is read,
  then the longest run of binary digits; with no digit the result is NaN (\<open>None\<close>).\<close>

fun binaryValue :: "int \<Rightarrow> string \<Rightarrow> int" where
  "binaryValue acc [] = acc"
| "binaryValue acc (c # cs) = binaryValue (2 * acc + (if c = CHR ''1'' then 1 else 0)) cs"

definition parseInt2 :: "string \<Rightarrow> int option" where
  "parseInt2 s =
     (let s1 = dropWhile isWhiteSpace s;
          neg = (case s1 of c # _ \<Rightarrow> c = CHR ''-'' | [] \<Rightarrow> False);
          s2 = (case s1 of c # r \<Rightarrow> if c = CHR ''-'' \<or> c = CHR ''+'' then r else s1 | [] \<Rightarrow> s1);
          ds = takeWhile (\<lambda>c. c = CHR ''0'' \<or> c = CHR ''1'') s2
      in if ds = [] then None
         else Some (if neg then - binaryValue 0 ds else binaryValue 0 ds))"

text \<open>\<open>Number.prototype.toString(16)\<close> on the result of \<open>parseInt\<close>.\<close>

definition numberToString16 :: "int option \<Rightarrow> string" where
  "numberToString16 x =
     (case x of
        None \<Rightarrow> ''NaN''
      | Some i \<Rightarrow> if i < 0 then CHR ''-'' # toStringRadix 16 (nat (- i))
                  else toStringRadix 16 (nat i))"

subsection \<open>Narrowing a double to binary32\<close>

text \<open>\<open>DataView.prototype.setFloat64\<close> followed by two \<open>getUint32\<close> reads splits the
  bit pattern of the double in two halves. \<open>setFloat32\<close> followed by \<open>getUint32\<close> gives
  the binary32 pattern of the double rounded to nearest, ties to even; for a NaN the
  runtime chooses the encoding and the model takes the quiet NaN \<open>0x7fc00000\<close>.\<close>

definition roundShift :: "nat \<Rightarrow> nat \<Rightarrow> nat" where
  "roundShift m sh =
     (let q = m div 2 ^ sh; r = m mod 2 ^ sh
      in if 2 ^ sh < 2 * r \<or> (2 * r = 2 ^ sh \<and> odd q) then q + 1 else q)"

definition setFloat32 :: "double \<Rightarrow> 32 word" where
  "setFloat32 v =
     (let sgn = push_bit 31 (ucast (drop_bit 63 v)) :: 32 word;
          e = unat (drop_bit 52 v AND 0x7ff);
          m = unat (v AND 0xfffffffffffff)
      in if e = 2047 then (if m = 0 then sgn OR 0x7f800000 else 0x7fc00000)
         else if e = 0 then sgn
         else if 897 \<le> e then
           (let p = (e - 897) * 2 ^ 23 + roundShift (2 ^ 52 + m) 29
            in if 0x7f800000 \<le> p then sgn OR 0x7f800000 else sgn OR of_nat p)
         else sgn OR of_nat (roundShift (2 ^ 52 + m) (926 - e)))"

definition getUint32_lo :: "double \<Rightarrow> 32 word" where
  "getUint32_lo v = ucast v"

definition getUint32_hi :: "double \<Rightarrow> 32 word" where
  "getUint32_hi v = ucast (drop_bit 32 v)"

section \<open>\<open>src/infrastructure/ieee754.ts\<close>\<close>

datatype FloatKind = Zero | Subnormal | Normal | Infinity | NaN

definition toBitsString32 :: "32 word \<Rightarrow> string" where
  "toBitsString32 u32 = padStart 32 (CHR ''0'') (toStringRadix 2 (unat u32))"

definition toHex32 :: "32 word \<Rightarrow> string" where
  "toHex32 u32 = padStart 8 (CHR ''0'') (toStringRadix 16 (unat u32))"

definition toHex64 :: "32 word \<Rightarrow> 32 word \<Rightarrow> string" where
  "toHex64 hi lo = toHex32 hi @ toHex32 lo"

definition toBitsString64 :: "32 word \<Rightarrow> 32 word \<Rightarrow> string" where
  "toBitsString64 hi lo = toBitsString32 hi @ toBitsString32 lo"

text \<open>The loop of \<open>groupEvery\<close> advances by \<open>n\<close>; with \<open>n = 0\<close> and a non-empty
  string it never ends, which is the value \<open>None\<close>.\<close>

partial_function (option) groupEveryLoop ::
  "string \<Rightarrow> nat \<Rightarrow> nat \<Rightarrow> string list \<Rightarrow> string list option" where
  "groupEveryLoop s n i out =
     (if i < length s then groupEveryLoop s n (i + n) (out @ [slice s i (i + n)])
      else Some out)"

declare groupEveryLoop.simps [code]

definition groupEvery :: "string \<Rightarrow> nat \<Rightarrow> string \<Rightarrow> string option" where
  "groupEvery s n sep = map_option (join sep) (groupEveryLoop s n 0 [])"

definition groupWithRemainderAtEnd :: "string \<Rightarrow> nat \<Rightarrow> string \<Rightarrow> string option" where
  "groupWithRemainderAtEnd s grp sep = groupEvery s grp sep"

definition classifyFloat32 :: "int \<Rightarrow> int \<Rightarrow> FloatKind" where
  "classifyFloat32 expo mant =
     (if expo = 0 then (if mant = 0 then Zero else Subnormal)
      else if expo = 0xff then (if mant = 0 then Infinity else NaN)
      else Normal)"

definition classifyFloat64 :: "int \<Rightarrow> int \<Rightarrow> int \<Rightarrow> FloatKind" where
  "classifyFloat64 expo mantHi mantLo =
     (let mantIsZero = (mantHi = 0 \<and> mantLo = 0)
      in if expo = 0 then (if mantIsZero then Zero else Subnormal)
         else if expo = 0x7ff then (if mantIsZero then Infinity else NaN)
         else Normal)"

function bitsToHexLoop :: "string \<Rightarrow> nat \<Rightarrow> string \<Rightarrow> string" where
  "bitsToHexLoop padded i hex =
     (if i < length padded
      then bitsToHexLoop padded (i + 4) (hex @ numberToString16 (parseInt2 (slice padded i (i + 4))))
      else hex)"
  by pat_completeness auto
termination
  by (relation "measure (\<lambda>(padded, i, hex). length padded - i)") auto

definition bitsToHexPadded :: "string \<Rightarrow> string" where
  "bitsToHexPadded bits =
     (let pad = (4 - (length bits mod 4)) mod 4;
          padded = repeat (CHR ''0'') pad @ bits
      in bitsToHexLoop padded 0 [])"

text \<open>The two result types share their field names; a field is written with its
  record's name where the type is not clear from the context.\<close>

record Float32BitsInfo =
  kind :: FloatKind
  signBit :: int
  exponentBits :: int
  mantissaBits :: int
  exponentUnbiased :: "int option"
  hex :: string
  bits :: string
  hexGrouped :: string
  bitsGrouped8 :: string
  signBitsStr :: string
  exponentBitsStr :: string
  mantissaBitsStr :: string
  exponentGrouped4 :: string
  mantissaGrouped4 :: string
  payloadBitsStr :: string
  payloadGrouped4 :: string
  payloadHexPadded :: string

record Float64BitsInfo =
  kind :: FloatKind
  signBit :: int
  exponentBits :: int
  mantissaHigh :: int
  mantissaLow :: int
  exponentUnbiased :: "int option"
  hex :: string
  bits :: string
  hexGrouped :: string
  bitsGrouped8 :: string
  signBitsStr :: string
  exponentBitsStr :: string
  mantissaBitsStr :: string
  exponentGrouped4 :: string
  mantissaGrouped4 :: string
  payloadBitsStr :: string
  payloadGrouped4 :: string
  payloadHexPadded :: string

definition float32Bits :: "double \<Rightarrow> Float32BitsInfo option" where
  "float32Bits value =
     (let u32 = setFloat32 value;
          signBit = sint (drop_bit 31 u32 AND 1);
          exponentBits = sint (drop_bit 23 u32 AND 0xff);
          mantissaBits = sint (u32 AND 0x7fffff);
          kind = classifyFloat32 exponentBits mantissaBits;
          exponentUnbiased =
            (if kind = Normal then Some (exponentBits - 127)
             else if kind = Subnormal then Some (- 126)
             else None);
          bits = toBitsString32 u32;
          hex = toHex32 u32;
          signBitsStr = slice bits 0 1;
          exponentBitsStr = slice bits 1 9;
          mantissaBitsStr = sliceFrom bits 9
      in do {
        hexGrouped \<leftarrow> groupEvery hex 2 '' '';
        bitsGrouped8 \<leftarrow> groupEvery bits 8 '' '';
        exponentGrouped4 \<leftarrow> groupEvery exponentBitsStr 4 '' '';
        mantissaGrouped4 \<leftarrow> groupWithRemainderAtEnd mantissaBitsStr 4 '' '';
        let payloadBitsStr = mantissaBitsStr;
        let payloadGrouped4 = mantissaGrouped4;
        let payloadHexPadded = padStart 6 (CHR ''0'') (bitsToHexPadded payloadBitsStr);
        Some \<lparr> Float32BitsInfo.kind = kind,
               signBit = signBit,
               exponentBits = exponentBits,
               mantissaBits = mantissaBits,
               exponentUnbiased = exponentUnbiased,
               hex = hex,
               bits = bits,
               hexGrouped = hexGrouped,
               bitsGrouped8 = bitsGrouped8,
               signBitsStr = signBitsStr,
               exponentBitsStr = exponentBitsStr,
               mantissaBitsStr = mantissaBitsStr,
               exponentGrouped4 = exponentGrouped4,
               mantissaGrouped4 = mantissaGrouped4,
               payloadBitsStr = payloadBitsStr,
               payloadGrouped4 = payloadGrouped4,
               payloadHexPadded = payloadHexPadded \<rparr>
      })"

definition float64Bits :: "double \<Rightarrow> Float64BitsInfo option" where
  "float64Bits value =
     (let lo = getUint32_lo value;
          hi = getUint32_hi value;
          signBit = sint (drop_bit 31 hi AND 1);
          exponentBits = sint (drop_bit 20 hi AND 0x7ff);
          mantissaHigh = sint (hi AND 0x000fffff);
          mantissaLow = uint lo;
          kind = classifyFloat64 exponentBits mantissaHigh mantissaLow;
          exponentUnbiased =
            (if kind = Normal then Some (exponentBits - 1023)
             else if kind = Subnormal then Some (- 1022)
             else None);
          bits = toBitsString64 hi lo;
          hex = toHex64 hi lo;
          signBitsStr = slice bits 0 1;
          exponentBitsStr = slice bits 1 12;
          mantissaBitsStr = sliceFrom bits 12
      in do {
        hexGrouped \<leftarrow> groupEvery hex 2 '' '';
        bitsGrouped8 \<leftarrow> groupEvery bits 8 '' '';
        let exponentGrouped4 =
              slice exponentBitsStr 0 3 @ '' '' @ slice exponentBitsStr 3 7 @ '' '' @
              slice exponentBitsStr 7 11;
        mantissaGrouped4 \<leftarrow> groupEvery mantissaBitsStr 4 '' '';
        let payloadBitsStr = mantissaBitsStr;
        let payloadGrouped4 = mantissaGrouped4;
        let payloadHexPadded = padStart 13 (CHR ''0'') (bitsToHexPadded payloadBitsStr);
        Some \<lparr> Float64BitsInfo.kind = kind,
               signBit = signBit,
               exponentBits = exponentBits,
               mantissaHigh = mantissaHigh,
               mantissaLow = mantissaLow,
               exponentUnbiased = exponentUnbiased,
               hex = hex,
               bits = bits,
               hexGrouped = hexGrouped,
               bitsGrouped8 = bitsGrouped8,
               signBitsStr = signBitsStr,
               exponentBitsStr = exponentBitsStr,
               mantissaBitsStr = mantissaBitsStr,
               exponentGrouped4 = exponentGrouped4,
               mantissaGrouped4 = mantissaGrouped4,
               payloadBitsStr = payloadBitsStr,
               payloadGrouped4 = payloadGrouped4,
               payloadHexPadded = payloadHexPadded \<rparr>
      })"

subsection \<open>Specification vocabulary for the bit and hex strings\<close>

text \<open>The \<open>k\<close>-digit representation of \<open>n\<close> in a radix, most significant digit first,
  and the consecutive pieces of length \<open>n\<close> of a string (the last one may be shorter).
  Both are used to state what the strings of the program contain.\<close>

definition digitsMSB :: "nat \<Rightarrow> nat \<Rightarrow> nat \<Rightarrow> string" where
  "digitsMSB radix k n = map (\<lambda>i. digitChar ((n div radix ^ i) mod radix)) (rev [0..<k])"

function chunks :: "nat \<Rightarrow> string \<Rightarrow> string list" where
  "chunks n s = (if s = [] \<or> n = 0 then [] else take n s # chunks n (drop n s))"
  by pat_completeness auto
termination
  by (relation "measure (\<lambda>(n, s). length s)") auto

section \<open>Platform model: trimming, case folding, regular expressions, \<open>Number\<close>\<close>

text \<open>\<open>String.prototype.trim\<close>, \<open>startsWith\<close> and \<open>toLowerCase\<close>. Below code unit
  256 the upper-case letters are \<open>A\<close>..\<open>Z\<close> and \<open>0xC0\<close>..\<open>0xDE\<close> without \<open>0xD7\<close>; each
  has its lower-case partner 32 places higher.\<close>

definition trim :: "string \<Rightarrow> string" where
  "trim s = rev (dropWhile isWhiteSpace (rev (dropWhile isWhiteSpace s)))"

definition startsWith :: "string \<Rightarrow> string \<Rightarrow> bool" where
  "startsWith s p = (take (length p) s = p)"

definition toLowerChar :: "char \<Rightarrow> char" where
  "toLowerChar c =
     (let n = of_char c :: nat
      in if (65 \<le> n \<and> n \<le> 90) \<or> (192 \<le> n \<and> n \<le> 222 \<and> n \<noteq> 215)
         then char_of (n + 32) else c)"

definition toLowerCase :: "string \<Rightarrow> string" where
  "toLowerCase s = map toLowerChar s"

text \<open>The line terminators below code unit 256, which \<open>.\<close> of a regular expression
  does not match: LF and CR.\<close>

definition isLineTerminator :: "char \<Rightarrow> bool" where
  "isLineTerminator c = (of_char c \<in> {10, 13 :: nat})"

subsection \<open>Regular expressions\<close>

text \<open>The regular expressions of the program use character classes, \<open>.\<close>, sequence,
  alternative, \<open>?\<close>, \<open>*\<close> and \<open>+\<close>, and every one is anchored at both ends, so
  \<open>RegExp.prototype.test\<close> succeeds exactly when the whole string is in the language.
  The matcher is by derivatives.\<close>

datatype regex =
    Null
  | Eps
  | OneOf string
  | Between char char
  | Dot
  | Seq regex regex
  | Alt regex regex
  | Opt regex
  | Star regex
  | Plus regex

fun nullable :: "regex \<Rightarrow> bool" where
  "nullable Null = False"
| "nullable Eps = True"
| "nullable (OneOf cs) = False"
| "nullable (Between lo hi) = False"
| "nullable Dot = False"
| "nullable (Seq r s) = (nullable r \<and> nullable s)"
| "nullable (Alt r s) = (nullable r \<or> nullable s)"
| "nullable (Opt r) = True"
| "nullable (Star r) = True"
| "nullable (Plus r) = nullable r"

definition inRange :: "char \<Rightarrow> char \<Rightarrow> char \<Rightarrow> bool" where
  "inRange lo hi c = ((of_char lo :: nat) \<le> of_char c \<and> (of_char c :: nat) \<le> of_char hi)"

fun deriv :: "char \<Rightarrow> regex \<Rightarrow> regex" where
  "deriv c Null = Null"
| "deriv c Eps = Null"
| "deriv c (OneOf cs) = (if c \<in> set cs then Eps else Null)"
| "deriv c (Between lo hi) = (if inRange lo hi c then Eps else Null)"
| "deriv c Dot = (if isLineTerminator c then Null else Eps)"
| "deriv c (Seq r s) =
     (if nullable r then Alt (Seq (deriv c r) s) (deriv c s) else Seq (deriv c r) s)"
| "deriv c (Alt r s) = Alt (deriv c r) (deriv c s)"
| "deriv c (Opt r) = deriv c r"
| "deriv c (Star r) = Seq (deriv c r) (Star r)"
| "deriv c (Plus r) = Seq (deriv c r) (Star r)"

fun test :: "regex \<Rightarrow> string \<Rightarrow> bool" where
  "test r [] = nullable r"
| "test r (c # cs) = test (deriv c r) cs"

subsection \<open>\<open>Number(text)\<close>: the \<open>StringToNumber\<close> conversion\<close>

text \<open>The \<open>Number\<close> values the parser names: \<open>Number.NaN\<close>, \<open>Infinity\<close> and
  \<open>-Infinity\<close>, and the tests \<open>Number.isNaN\<close> and \<open>Number.isFinite\<close> on a bit
  pattern.\<close>

definition Number_NaN :: double where
  "Number_NaN = 0x7ff8000000000000"

definition Number_Infinity :: double where
  "Number_Infinity = 0x7ff0000000000000"

definition Number_NegInfinity :: double where
  "Number_NegInfinity = 0xfff0000000000000"

definition Number_isNaN :: "double \<Rightarrow> bool" where
  "Number_isNaN v = (0x7ff0000000000000 < unat (v AND 0x7fffffffffffffff))"

definition Number_isFinite :: "double \<Rightarrow> bool" where
  "Number_isFinite v = (unat (v AND 0x7fffffffffffffff) < 0x7ff0000000000000)"

text \<open>The rational number that a finite double denotes, to state which number a bit
  pattern is.\<close>

definition doubleValue :: "double \<Rightarrow> rat" where
  "doubleValue v =
     (let e = unat (drop_bit 52 v AND 0x7ff);
          m = unat (v AND 0xfffffffffffff);
          mag = (if e = 0 then of_nat m / 2 ^ 1074
                 else if 1075 \<le> e then of_nat (2 ^ 52 + m) * 2 ^ (e - 1075)
                 else of_nat (2 ^ 52 + m) / 2 ^ (1075 - e))
      in if v AND 0x8000000000000000 \<noteq> 0 then - mag else mag)"

text \<open>The double nearest to the positive rational \<open>p / q\<close>, ties to even, with its sign
  bit; a magnitude beyond the largest finite double gives an infinity.\<close>

fun bitLength :: "nat \<Rightarrow> nat" where
  "bitLength n = (if n = 0 then 0 else Suc (bitLength (n div 2)))"

declare bitLength.simps [simp del]

definition mkDouble :: "bool \<Rightarrow> nat \<Rightarrow> double" where
  "mkDouble neg mag = (if neg then 0x8000000000000000 else 0) + of_nat mag"

definition roundToDouble :: "bool \<Rightarrow> nat \<Rightarrow> nat \<Rightarrow> double" where
  "roundToDouble neg p q =
     (if p = 0 then mkDouble neg 0
      else
        let e0 = int (bitLength p) - int (bitLength q);
            e = (if q * 2 ^ nat e0 \<le> p * 2 ^ nat (- e0) then e0 else e0 - 1);
            ee = max e (- 1022);
            qe = ee - 52;
            num = p * 2 ^ nat (- qe);
            den = q * 2 ^ nat qe;
            k = num div den;
            r = num mod den;
            k' = (if den < 2 * r \<or> (2 * r = den \<and> odd k) then k + 1 else k);
            mag = nat (ee + 1022) * 2 ^ 52 + k'
        in if 0x7ff0000000000000 \<le> mag then mkDouble neg 0x7ff0000000000000
           else mkDouble neg mag)"

definition isDigit :: "char \<Rightarrow> bool" where
  "isDigit c = inRange (CHR ''0'') (CHR ''9'') c"

definition digitValue :: "char \<Rightarrow> nat" where
  "digitValue c =
     (let n = of_char c :: nat
      in if 48 \<le> n \<and> n \<le> 57 then n - 48
         else if 97 \<le> n \<and> n \<le> 102 then n - 87
         else if 65 \<le> n \<and> n \<le> 70 then n - 55
         else 36)"

definition digitsValue :: "nat \<Rightarrow> string \<Rightarrow> nat" where
  "digitsValue radix s = foldl (\<lambda>a c. radix * a + digitValue c) 0 s"

text \<open>\<open>SignedInteger\<close>, \<open>StrUnsignedDecimalLiteral\<close> without \<open>Infinity\<close> (as the pair
  of the digits read as an integer and the power of ten that scales it), and the
  non-decimal integer literals \<open>0x\<close>, \<open>0o\<close> and \<open>0b\<close>.\<close>

definition parseDigits :: "string \<Rightarrow> nat option" where
  "parseDigits s = (if s \<noteq> [] \<and> list_all isDigit s then Some (digitsValue 10 s) else None)"

definition parseSignedInteger :: "string \<Rightarrow> int option" where
  "parseSignedInteger s =
     (case s of
        [] \<Rightarrow> None
      | c # r \<Rightarrow>
          if c = CHR ''+'' then map_option int (parseDigits r)
          else if c = CHR ''-'' then map_option (\<lambda>n. - int n) (parseDigits r)
          else map_option int (parseDigits s))"

definition parseUnsignedDecimal :: "string \<Rightarrow> (nat \<times> int) option" where
  "parseUnsignedDecimal s =
     (let ip = takeWhile isDigit s;
          r1 = dropWhile isDigit s;
          dot = (case r1 of [] \<Rightarrow> False | c # _ \<Rightarrow> c = CHR ''.'');
          fp = (if dot then takeWhile isDigit (tl r1) else []);
          r2 = (if dot then dropWhile isDigit (tl r1) else r1)
      in if ip = [] \<and> fp = [] then None
         else
           (case r2 of
              [] \<Rightarrow> Some (digitsValue 10 (ip @ fp), - int (length fp))
            | c # r \<Rightarrow>
                if c = CHR ''e'' \<or> c = CHR ''E''
                then map_option (\<lambda>x. (digitsValue 10 (ip @ fp), x - int (length fp)))
                       (parseSignedInteger r)
                else None))"

definition parseNonDecimal :: "string \<Rightarrow> nat option option" where
  "parseNonDecimal t =
     (case t of
        z # x # ds \<Rightarrow>
          if z = CHR ''0'' \<and> x \<in> set ''xXoObB''
          then (let radix = (if x \<in> set ''xX'' then 16 else if x \<in> set ''oO'' then 8 else 2)
                in Some (if ds \<noteq> [] \<and> list_all (\<lambda>c. digitValue c < radix) ds
                         then Some (digitsValue radix ds) else None))
          else None
      | _ \<Rightarrow> None)"

definition Number :: "string \<Rightarrow> double" where
  "Number s =
     (let t = trim s
      in if t = [] then 0
         else
           (case parseNonDecimal t of
              Some None \<Rightarrow> Number_NaN
            | Some (Some n) \<Rightarrow> roundToDouble False n 1
            | None \<Rightarrow>
                (let neg = (hd t = CHR ''-'');
                     u = (if hd t = CHR ''-'' \<or> hd t = CHR ''+'' then tl t else t)
                 in if u = ''Infinity''
                    then (if neg then Number_NegInfinity else Number_Infinity)
                    else
                      (case parseUnsignedDecimal u of
                         None \<Rightarrow> Number_NaN
                       | Some (d, x) \<Rightarrow>
                           roundToDouble neg (d * 10 ^ nat x) (10 ^ nat (- x))))))"

section \<open>\<open>src/domain/parseFloatingInput.ts\<close>\<close>

datatype ParseResult =
    Valid double string
  | Incomplete string string
  | Invalid string string

text \<open>\<open>ParseOptions\<close> has optional members; \<open>None\<close> is a member that is absent. The
  parser only tests the merged members for truth, so a member that is present and
  \<open>undefined\<close> behaves as \<open>Some False\<close>. \<open>RequiredParseOptions\<close> is
  \<open>Required<ParseOptions>\<close>.\<close>

record ParseOptions =
  allowLeadingPlus :: "bool option"
  allowInfinitySynonyms :: "bool option"
  allowNaN :: "bool option"
  caseInsensitiveSpecials :: "bool option"

record RequiredParseOptions =
  allowLeadingPlus :: bool
  allowInfinitySynonyms :: bool
  allowNaN :: bool
  caseInsensitiveSpecials :: bool

definition defaultOptions :: RequiredParseOptions where
  "defaultOptions =
     \<lparr> RequiredParseOptions.allowLeadingPlus = True,
       allowInfinitySynonyms = True,
       allowNaN = True,
       caseInsensitiveSpecials = True \<rparr>"

text \<open>\<open>{ ...defaultOptions, ...opts }\<close>, and \<open>opts = {}\<close> when the argument is
  omitted.\<close>

definition mergeOptions :: "RequiredParseOptions \<Rightarrow> ParseOptions \<Rightarrow> RequiredParseOptions" where
  "mergeOptions d opts =
     \<lparr> RequiredParseOptions.allowLeadingPlus =
         (case ParseOptions.allowLeadingPlus opts of
            None \<Rightarrow> RequiredParseOptions.allowLeadingPlus d | Some b \<Rightarrow> b),
       allowInfinitySynonyms =
         (case ParseOptions.allowInfinitySynonyms opts of
            None \<Rightarrow> RequiredParseOptions.allowInfinitySynonyms d | Some b \<Rightarrow> b),
       allowNaN =
         (case ParseOptions.allowNaN opts of
            None \<Rightarrow> RequiredParseOptions.allowNaN d | Some b \<Rightarrow> b),
       caseInsensitiveSpecials =
         (case ParseOptions.caseInsensitiveSpecials opts of
            None \<Rightarrow> RequiredParseOptions.caseInsensitiveSpecials d | Some b \<Rightarrow> b) \<rparr>"

definition noOptions :: ParseOptions where
  "noOptions =
     \<lparr> ParseOptions.allowLeadingPlus = None,
       allowInfinitySynonyms = None,
       allowNaN = None,
       caseInsensitiveSpecials = None \<rparr>"

definition normalizeNumericText :: "string \<Rightarrow> RequiredParseOptions \<Rightarrow> string" where
  "normalizeNumericText text o' =
     (if RequiredParseOptions.allowLeadingPlus o' \<and> startsWith text ''+'' then sliceFrom text 1
      else text)"

text \<open>The regular expressions of the parser.\<close>

definition digit :: regex where
  "digit = Between (CHR ''0'') (CHR ''9'')"

definition mantissaRe :: regex where
  "mantissaRe =
     Alt (Seq (Plus digit) (Opt (Seq (OneOf ''.'') (Star digit))))
         (Seq (OneOf ''.'') (Plus digit))"

definition signBodyRe :: regex where
  "signBodyRe = Seq (Opt (OneOf ''+-'')) (Star Dot)"

definition alphaOnlyRe :: regex where
  "alphaOnlyRe = Plus (Alt (Between (CHR ''A'') (CHR ''Z'')) (Between (CHR ''a'') (CHR ''z'')))"

definition exponentMarkerRe :: regex where
  "exponentMarkerRe = Seq (Opt (OneOf ''+-'')) (Seq mantissaRe (OneOf ''eE''))"

definition exponentSignRe :: regex where
  "exponentSignRe =
     Seq (Opt (OneOf ''+-'')) (Seq mantissaRe (Seq (OneOf ''eE'') (OneOf ''+-'')))"

definition decimalNumberRe :: regex where
  "decimalNumberRe =
     Seq (Opt (OneOf ''+-''))
       (Seq mantissaRe
          (Opt (Seq (OneOf ''eE'') (Seq (Opt (OneOf ''+-'')) (Plus digit)))))"

definition isAlphaOnly :: "string \<Rightarrow> bool" where
  "isAlphaOnly s = test alphaOnlyRe s"

text \<open>\<open>text.match(/^([+-])?(.*)$/)\<close>: the match fails exactly when the text holds a
  line terminator; otherwise the first group takes a leading sign (the \<open>?\<close> is greedy
  and the rest always matches) and the second group the rest. The result is the pair of
  \<open>m[1] ?? ""\<close> and \<open>m[2]\<close>.\<close>

definition matchSignBody :: "string \<Rightarrow> (string \<times> string) option" where
  "matchSignBody text =
     (if test signBodyRe text
      then (case text of
              [] \<Rightarrow> Some ([], [])
            | c # r \<Rightarrow> if c \<in> set ''+-'' then Some ([c], r) else Some ([], text))
      else None)"

text \<open>\<open>parseSpecial\<close> has two blocks, one for NaN and one for Infinity, each of which
  either returns a result or falls through (\<open>None\<close>). They are the two definitions
  \<open>parseSpecialNaN\<close> and \<open>parseSpecialInfinity\<close>, over the variables \<open>sign\<close>, \<open>body\<close> and
  \<open>cmp\<close> of the function.\<close>

definition parseSpecialNaN ::
  "string \<Rightarrow> RequiredParseOptions \<Rightarrow> string \<Rightarrow> string \<Rightarrow> string \<Rightarrow> ParseResult option" where
  "parseSpecialNaN text o' sign body cmp =
     (if RequiredParseOptions.allowNaN o' then
        (if cmp = (if RequiredParseOptions.caseInsensitiveSpecials o' then ''nan'' else ''NaN'')
         then Some (Valid Number_NaN (sign @ ''NaN''))
         else if RequiredParseOptions.caseInsensitiveSpecials o' then
           (if startsWith ''nan'' cmp \<and> length cmp < 3 \<and> isAlphaOnly body
            then Some (Incomplete ''incomplete NaN token'' text)
            else None)
         else None)
      else None)"

definition parseSpecialInfinity ::
  "string \<Rightarrow> RequiredParseOptions \<Rightarrow> string \<Rightarrow> string \<Rightarrow> string \<Rightarrow> ParseResult option" where
  "parseSpecialInfinity text o' sign body cmp =
     (if RequiredParseOptions.allowInfinitySynonyms o' then
        (let infTokens =
               (if RequiredParseOptions.caseInsensitiveSpecials o'
                then [''inf'', ''infinity''] else [''Inf'', ''Infinity'']);
             isFull = list_ex (\<lambda>t. cmp = t) infTokens
         in if isFull
            then (let v = (if sign = ''-'' then Number_NegInfinity else Number_Infinity)
                  in Some (Valid v ((if sign \<noteq> [] then sign else []) @ ''Infinity'')))
            else if RequiredParseOptions.caseInsensitiveSpecials o' \<and> isAlphaOnly body
            then (let target = ''infinity''
                  in if startsWith target cmp \<and> length cmp < length target
                     then Some (Incomplete ''incomplete Infinity token'' text)
                     else if startsWith ''inf'' cmp \<and> length cmp < 3
                     then Some (Incomplete ''incomplete Inf token'' text)
                     else None)
            else None)
      else None)"

definition parseSpecial :: "string \<Rightarrow> RequiredParseOptions \<Rightarrow> ParseResult option" where
  "parseSpecial text o' =
     (case matchSignBody text of
        None \<Rightarrow> None
      | Some (sign, body) \<Rightarrow>
          (let cmp = (if RequiredParseOptions.caseInsensitiveSpecials o' then toLowerCase body else body)
           in case parseSpecialNaN text o' sign body cmp of
                Some result \<Rightarrow> Some result
              | None \<Rightarrow> parseSpecialInfinity text o' sign body cmp))"

definition isIncompleteNumberToken :: "string \<Rightarrow> RequiredParseOptions \<Rightarrow> string option" where
  "isIncompleteNumberToken text o' =
     (if text = ''-'' \<or> (RequiredParseOptions.allowLeadingPlus o' \<and> text = ''+'')
      then Some ''sign only''
      else if text = ''.'' \<or> text = ''-.'' \<or>
              (RequiredParseOptions.allowLeadingPlus o' \<and> text = ''+.'')
      then Some ''dot only''
      else if test exponentMarkerRe text then Some ''exponent marker only''
      else if test exponentSignRe text then Some ''exponent sign only''
      else None)"

definition isValidDecimalNumberSyntax :: "string \<Rightarrow> RequiredParseOptions \<Rightarrow> bool" where
  "isValidDecimalNumberSyntax text o' =
     (if \<not> RequiredParseOptions.allowLeadingPlus o' \<and> startsWith text ''+'' then False
      else test decimalNumberRe text)"

definition ParseFloatingInput :: "string \<Rightarrow> ParseOptions \<Rightarrow> ParseResult" where
  "ParseFloatingInput input opts =
     (let o' = mergeOptions defaultOptions opts;
          raw = input;
          text = trim raw
      in if length text = 0 then Incomplete ''empty'' ''''
         else if \<not> RequiredParseOptions.allowLeadingPlus o' \<and> startsWith text ''+''
         then Invalid ''leading plus is not allowed'' text
         else
           (case parseSpecial text o' of
              Some special \<Rightarrow> special
            | None \<Rightarrow>
                (case isIncompleteNumberToken text o' of
                   Some incomplete \<Rightarrow> Incomplete incomplete text
                 | None \<Rightarrow>
                     if \<not> isValidDecimalNumberSyntax text o'
                     then Invalid ''invalid numeric syntax'' text
                     else
                       (let value = Number text
                        in if Number_isNaN value then Invalid ''parsed to NaN'' text
                           else if \<not> RequiredParseOptions.allowInfinitySynonyms o' \<and>
                                   \<not> Number_isFinite value
                           then Invalid ''infinity is not allowed'' text
                           else Valid value (normalizeNumericText text o')))))"

subsection \<open>The language of a regular expression\<close>

text \<open>The set of strings a regular expression denotes, used to reason about \<open>test\<close>
  on every string at once, and the characters that can occur in such a string.\<close>

definition conc :: "string set \<Rightarrow> string set \<Rightarrow> string set" where
  "conc A B = {xs @ ys | xs ys. xs \<in> A \<and> ys \<in> B}"

inductive_set star :: "string set \<Rightarrow> string set" for A :: "string set" where
  star_empty: "[] \<in> star A"
| star_step: "xs \<in> A \<Longrightarrow> ys \<in> star A \<Longrightarrow> xs @ ys \<in> star A"

fun lang :: "regex \<Rightarrow> string set" where
  "lang Null = {}"
| "lang Eps = {[]}"
| "lang (OneOf cs) = {[c] | c. c \<in> set cs}"
| "lang (Between lo hi) = {[c] | c. inRange lo hi c}"
| "lang Dot = {[c] | c. \<not> isLineTerminator c}"
| "lang (Seq r s) = conc (lang r) (lang s)"
| "lang (Alt r s) = lang r \<union> lang s"
| "lang (Opt r) = insert [] (lang r)"
| "lang (Star r) = star (lang r)"
| "lang (Plus r) = conc (lang r) (star (lang r))"

fun alphabet :: "regex \<Rightarrow> char set" where
  "alphabet Null = {}"
| "alphabet Eps = {}"
| "alphabet (OneOf cs) = set cs"
| "alphabet (Between lo hi) = {c. inRange lo hi c}"
| "alphabet Dot = {c. \<not> isLineTerminator c}"
| "alphabet (Seq r s) = alphabet r \<union> alphabet s"
| "alphabet (Alt r s) = alphabet r \<union> alphabet s"
| "alphabet (Opt r) = alphabet r"
| "alphabet (Star r) = alphabet r"
| "alphabet (Plus r) = alphabet r"

section \<open>Facts about the bit-field extractor\<close>

declare chunks.simps [simp del]
declare toStringRadix.simps [simp del]
declare bitsToHexLoop.simps [simp del]

lemma groupEveryLoop_chunks:
  "0 < n \<Longrightarrow> groupEveryLoop s n i out = Some (out @ chunks n (drop i s))"
proof (induction "length s - i" arbitrary: i out rule: less_induct)
  case less
  show ?case
  proof (cases "i < length s")
    case True
    with less.prems have "length s - (i + n) < length s - i" by simp
    from less.hyps [OF this less.prems]
    have "groupEveryLoop s n (i + n) (out @ [slice s i (i + n)])
            = Some ((out @ [slice s i (i + n)]) @ chunks n (drop (i + n) s))" .
    moreover have "chunks n (drop i s) = take n (drop i s) # chunks n (drop (i + n) s)"
      using True less.prems by (subst chunks.simps) (simp add: add.commute)
    ultimately show ?thesis
      using True by (subst groupEveryLoop.simps) (simp add: slice_def)
  next
    case False
    then show ?thesis
      by (subst groupEveryLoop.simps) (simp add: chunks.simps)
  qed
qed

lemma groupEvery_chunks: "0 < n \<Longrightarrow> groupEvery s n sep = Some (join sep (chunks n s))"
  by (simp add: groupEvery_def groupEveryLoop_chunks)

lemma digitChar_0: "digitChar 0 = CHR ''0''"
  by (simp add: digitChar_def)

lemma digitsMSB_Suc:
  "digitsMSB r (Suc k) n = digitsMSB r k (n div r) @ [digitChar (n mod r)]"
proof -
  have "[0..<Suc k] = 0 # map Suc [0..<k]"
    by (simp add: upt_conv_Cons map_Suc_upt del: upt_Suc)
  then have "rev [0..<Suc k] = map Suc (rev [0..<k]) @ [0]"
    by (simp add: rev_map del: upt_Suc)
  then show ?thesis
    by (simp add: digitsMSB_def comp_def div_mult2_eq del: upt_Suc)
qed

lemma digitsMSB_small: "n < r \<Longrightarrow> digitsMSB r (Suc k) n = replicate k (CHR ''0'') @ [digitChar n]"
proof (induction k)
  case 0 then show ?case by (simp add: digitsMSB_def)
next
  case (Suc k)
  have "digitsMSB r (Suc (Suc k)) n = digitChar ((n div r ^ Suc k) mod r) # digitsMSB r (Suc k) n"
    by (simp add: digitsMSB_def)
  moreover have "n div r ^ Suc k = 0" using Suc.prems
  proof -
    have "0 < r" using Suc.prems by simp
    then have "r ^ 1 \<le> r ^ Suc k" by (intro power_increasing) simp_all
    then have "r \<le> r ^ Suc k" by (simp only: power_one_right)
    with Suc.prems have "n < r ^ Suc k" by (rule less_le_trans)
    then show ?thesis by (rule div_less)
  qed
  ultimately show ?case using Suc by (simp add: digitChar_0 replicate_app_Cons_same)
qed


lemma toStringRadix_digitsMSB:
  "2 \<le> r \<Longrightarrow> n < r ^ Suc k \<Longrightarrow>
     length (toStringRadix r n) \<le> Suc k \<and>
     padStart (Suc k) (CHR ''0'') (toStringRadix r n) = digitsMSB r (Suc k) n"
proof (induction k arbitrary: n)
  case 0
  then show ?case
    by (subst (1 2) toStringRadix.simps) (simp add: padStart_def digitsMSB_def)
next
  case (Suc k)
  show ?case
  proof (cases "n < r")
    case True
    then show ?thesis
      by (subst (1 2) toStringRadix.simps) (simp add: padStart_def digitsMSB_small)
  next
    case False
    have "n div r < r ^ Suc k"
      using Suc.prems by (simp add: less_mult_imp_div_less mult.commute)
    from Suc.IH [OF Suc.prems(1) this]
    have len: "length (toStringRadix r (n div r)) \<le> Suc k"
      and eq: "padStart (Suc k) (CHR ''0'') (toStringRadix r (n div r)) = digitsMSB r (Suc k) (n div r)"
      by simp_all
    have unf: "toStringRadix r n = toStringRadix r (n div r) @ [digitChar (n mod r)]"
      using False Suc.prems(1) by (subst toStringRadix.simps) simp
    show ?thesis
      using len eq unfolding unf digitsMSB_Suc [of r "Suc k" n]
      by (simp add: padStart_def Suc_diff_le)
  qed
qed


lemma length_digitsMSB: "length (digitsMSB r k n) = k"
  by (simp add: digitsMSB_def)

lemma digitsMSB_append:
  "digitsMSB r (a + b) n = digitsMSB r a (n div r ^ b) @ digitsMSB r b n"
proof -
  have "[0..<a + b] = [0..<b] @ map (\<lambda>i. i + b) [0..<a]"
    by (metis add.commute add_0 map_add_upt upt_add_eq_append zero_le)
  moreover have "n div r ^ x div r ^ b = n div r ^ b div r ^ x" for x
    by (simp add: div_mult2_eq [symmetric] mult.commute)
  ultimately show ?thesis
    by (simp add: digitsMSB_def rev_map comp_def power_add div_mult2_eq)
qed

lemma take_digitsMSB: "take a (digitsMSB r (a + b) n) = digitsMSB r a (n div r ^ b)"
  by (simp add: digitsMSB_append length_digitsMSB)

lemma drop_digitsMSB: "drop a (digitsMSB r (a + b) n) = digitsMSB r b n"
  by (simp add: digitsMSB_append length_digitsMSB)

lemma digitsMSB_mod: "0 < r \<Longrightarrow> digitsMSB r k (n mod r ^ k) = digitsMSB r k n"
proof -
  assume r: "0 < r"
  have "(n mod r ^ k div r ^ i) mod r = (n div r ^ i) mod r" if "i < k" for i
  proof -
    have "r ^ k = r ^ i * r ^ (k - i)" using that by (simp flip: power_add)
    then have "n mod r ^ k div r ^ i = (r ^ i * (n div r ^ i mod r ^ (k - i)) + n mod r ^ i) div r ^ i"
      by (simp add: mod_mult2_eq)
    also have "\<dots> = n div r ^ i mod r ^ (k - i)"
      using r by simp
    finally have "n mod r ^ k div r ^ i = n div r ^ i mod r ^ (k - i)" .
    moreover have "r dvd r ^ (k - i)" using that by (simp add: dvd_power)
    ultimately show ?thesis
      by (simp add: mod_mod_cancel)
  qed
  then show ?thesis by (simp add: digitsMSB_def)
qed

lemma toBitsString32_digits: "toBitsString32 u = digitsMSB 2 32 (unat u)"
proof -
  have "unat u < 2 ^ Suc 31" using unsigned_less [of u, where 'a = nat] by simp
  from toStringRadix_digitsMSB [OF order_refl this] show ?thesis
    by (simp add: toBitsString32_def)
qed

lemma toHex32_digits: "toHex32 u = digitsMSB 16 8 (unat u)"
proof -
  have "unat u < 16 ^ Suc 7" using unsigned_less [of u, where 'a = nat] by simp
  from toStringRadix_digitsMSB [OF _ this] show ?thesis
    by (simp add: toHex32_def)
qed

lemma nibble_hex:
  "numberToString16 (parseInt2 (digitsMSB 2 4 d)) = [digitChar (d mod 16)]"
proof -
  have all: "\<forall>e \<in> set [0..<16].
      numberToString16 (parseInt2 (digitsMSB 2 4 e)) = [digitChar e]"
    by (simp add: digitsMSB_def numberToString16_def parseInt2_def isWhiteSpace_def
        digitChar_def toStringRadix.simps upt_rec Let_def)
  have "d mod 16 \<in> set [0..<16]" by simp
  with all have "numberToString16 (parseInt2 (digitsMSB 2 4 (d mod 16))) = [digitChar (d mod 16)]"
    by blast
  moreover have "digitsMSB 2 4 (d mod 16) = digitsMSB 2 4 d"
    using digitsMSB_mod [of 2 4 d] by simp
  ultimately show ?thesis by simp
qed

lemma bitsToHexLoop_digits:
  "bitsToHexLoop (pre @ digitsMSB 2 (4 * k) n) (length pre) h = h @ digitsMSB 16 k n"
proof (induction k arbitrary: pre h)
  case 0
  show ?case by (subst bitsToHexLoop.simps) (simp add: digitsMSB_def)
next
  case (Suc k)
  let ?nib = "digitsMSB 2 4 (n div 2 ^ (4 * k))"
  have split: "digitsMSB 2 (4 * Suc k) n = ?nib @ digitsMSB 2 (4 * k) n"
    using digitsMSB_append [of 2 4 "4 * k" n] by simp
  have sl: "slice (pre @ ?nib @ digitsMSB 2 (4 * k) n) (length pre) (length pre + 4) = ?nib"
    by (simp add: slice_def length_digitsMSB)
  have "bitsToHexLoop (pre @ digitsMSB 2 (4 * Suc k) n) (length pre) h
        = bitsToHexLoop ((pre @ ?nib) @ digitsMSB 2 (4 * k) n) (length (pre @ ?nib))
            (h @ numberToString16 (parseInt2 ?nib))"
    unfolding split
    by (subst bitsToHexLoop.simps) (simp add: sl length_digitsMSB)
  also have "\<dots> = (h @ numberToString16 (parseInt2 ?nib)) @ digitsMSB 16 k n"
    by (rule Suc.IH)
  also have "\<dots> = h @ digitsMSB 16 (Suc k) n"
  proof -
    have "(2::nat) ^ (4 * k) = 16 ^ k" by (simp add: power_mult)
    then show ?thesis
      by (simp add: nibble_hex) (simp add: digitsMSB_def)
  qed
  finally show ?case .
qed

lemma bitsToHexPadded_digits:
  "bitsToHexPadded (digitsMSB 2 (4 * k) n) = digitsMSB 16 k n"
  using bitsToHexLoop_digits [of "[]" k n "[]"]
  by (simp add: bitsToHexPadded_def length_digitsMSB repeat_def)

lemma sint_small: "uint (w::32 word) < 2 ^ 31 \<Longrightarrow> sint w = uint w"
proof -
  assume a: "uint w < 2 ^ 31"
  have b: "0 \<le> uint w" by simp
  have "sint w = signed_take_bit 31 (uint w)" by (simp add: sint_uint)
  also have "\<dots> = uint w"
  proof (rule signed_take_bit_int_eq_self [OF _ a])
    show "- (2 ^ 31) \<le> uint w" by (rule order_trans [OF _ b]) simp
  qed
  finally show ?thesis .
qed

lemma uint_lo: "uint (getUint32_lo v) = uint v mod 2 ^ 32"
  by (simp add: getUint32_lo_def unsigned_ucast_eq take_bit_int_def)

lemma uint_hi: "uint (getUint32_hi v) = uint v div 2 ^ 32"
proof -
  have "uint v < 2 ^ 64" using unsigned_less [of v, where 'a = int] by simp
  then have "uint v div 2 ^ 32 < 2 ^ 32" by simp
  moreover have "0 \<le> uint v div 2 ^ 32" by (simp add: pos_imp_zdiv_nonneg_iff)
  ultimately have "uint v div 2 ^ 32 mod 2 ^ 32 = uint v div 2 ^ 32" by simp
  then show ?thesis
    by (simp add: getUint32_hi_def unsigned_ucast_eq unsigned_drop_bit_eq take_bit_int_def drop_bit_int_def)
qed

lemma sint_field:
  "n < 31 \<Longrightarrow> sint (drop_bit k (u::32 word) AND mask n) = uint u div 2 ^ k mod 2 ^ n"
proof -
  assume n: "n < 31"
  have "uint u < 2 ^ 32" using unsigned_less [of u, where 'a = int] by simp
  then have r: "uint u mod 4294967296 = uint u" by simp
  have u: "uint (drop_bit k u AND mask n) = uint u div 2 ^ k mod 2 ^ n"
    by (simp flip: take_bit_eq_mask add: unsigned_take_bit_eq unsigned_drop_bit_eq take_bit_int_def drop_bit_int_def r)
  have "uint u div 2 ^ k mod 2 ^ n < 2 ^ n" by simp
  also have "(2::int) ^ n < 2 ^ 31" using n by (intro power_strict_increasing) simp_all
  finally have "uint (drop_bit k u AND mask n) < 2 ^ 31" unfolding u .
  from sint_small [OF this] u show ?thesis by simp
qed

lemma masks:
  "(1 :: 32 word) = mask 1" "(0xff :: 32 word) = mask 8" "(0x7fffff :: 32 word) = mask 23"
  "(0x7ff :: 32 word) = mask 11" "(0xfffff :: 32 word) = mask 20"
  by (simp_all add: mask_eq_exp_minus_1)

lemma sint_field0:
  "n < 31 \<Longrightarrow> sint ((u::32 word) AND mask n) = uint u mod 2 ^ n"
  using sint_field [of n 0 u] by simp

lemma sint_sign: "sint (drop_bit 31 (u::32 word) AND 1) = uint u div 2 ^ 31 mod 2"
  using sint_field [of 1 31 u] by (simp add: mask_eq_exp_minus_1)

lemma sint_exp32: "sint (drop_bit 23 (u::32 word) AND 0xff) = uint u div 2 ^ 23 mod 2 ^ 8"
  using sint_field [of 8 23 u] by (simp add: mask_eq_exp_minus_1)

lemma sint_mant32: "sint ((u::32 word) AND 0x7fffff) = uint u mod 2 ^ 23"
  using sint_field0 [of 23 u] by (simp add: mask_eq_exp_minus_1)

lemma sint_exp64: "sint (drop_bit 20 (u::32 word) AND 0x7ff) = uint u div 2 ^ 20 mod 2 ^ 11"
  using sint_field [of 11 20 u] by (simp add: mask_eq_exp_minus_1)

lemma sint_mant64: "sint ((u::32 word) AND 0xfffff) = uint u mod 2 ^ 20"
  using sint_field0 [of 20 u] by (simp add: mask_eq_exp_minus_1)

lemmas sint_fields = sint_sign sint_exp32 sint_mant32 sint_exp64 sint_mant64

lemma split64:
  fixes x :: int
  assumes "0 \<le> x" "x < 2 ^ 64"
  shows "(x div 2 ^ 32 div 2 ^ 31 mod 2) * 2 ^ 63 + (x div 2 ^ 32 div 2 ^ 20 mod 2 ^ 11) * 2 ^ 52
           + (x div 2 ^ 32 mod 2 ^ 20) * 2 ^ 32 + x mod 2 ^ 32 = x"
proof -
  define h where "h = x div 2 ^ 32"
  define g where "g = h div 2 ^ 20"
  have x: "x = h * 2 ^ 32 + x mod 2 ^ 32" by (simp add: h_def)
  have h: "h = g * 2 ^ 20 + h mod 2 ^ 20" by (simp add: g_def)
  have g: "g = (g div 2 ^ 11) * 2 ^ 11 + g mod 2 ^ 11" by simp
  have "h div 2 ^ 31 = g div 2 ^ 11"
    by (simp add: g_def zdiv_zmult2_eq)
  moreover have "g div 2 ^ 11 < 2" "0 \<le> g div 2 ^ 11"
    using assms by (simp_all add: g_def h_def zdiv_zmult2_eq pos_imp_zdiv_nonneg_iff)
  ultimately have s: "h div 2 ^ 31 mod 2 = g div 2 ^ 11" by simp
  have alg: "a * 2 ^ 63 + b * 2 ^ 52 + c * 2 ^ 32 + d = ((a * 2 ^ 11 + b) * 2 ^ 20 + c) * 2 ^ 32 + d"
    for a b c d :: int by (simp add: algebra_simps)
  have "(g div 2 ^ 11) * 2 ^ 63 + (g mod 2 ^ 11) * 2 ^ 52 + (h mod 2 ^ 20) * 2 ^ 32 + x mod 2 ^ 32
        = ((g div 2 ^ 11 * 2 ^ 11 + g mod 2 ^ 11) * 2 ^ 20 + h mod 2 ^ 20) * 2 ^ 32 + x mod 2 ^ 32"
    by (rule alg)
  also have "\<dots> = (g * 2 ^ 20 + h mod 2 ^ 20) * 2 ^ 32 + x mod 2 ^ 32" by (simp only: g [symmetric])
  also have "\<dots> = h * 2 ^ 32 + x mod 2 ^ 32" by (simp only: h [symmetric])
  also have "\<dots> = x" by (simp only: x [symmetric])
  finally show ?thesis unfolding s h_def [symmetric] g_def [symmetric] .
qed

lemma unat_lo: "unat (getUint32_lo v) = unat v mod 2 ^ 32"
  by (simp add: getUint32_lo_def unsigned_ucast_eq take_bit_nat_def)

lemma unat_hi: "unat (getUint32_hi v) = unat v div 2 ^ 32"
proof -
  have "unat v < 2 ^ 64" using unsigned_less [of v, where 'a = nat] by simp
  then have "unat v div 2 ^ 32 < 2 ^ 32" by (simp add: less_mult_imp_div_less)
  then have "unat v div 2 ^ 32 mod 2 ^ 32 = unat v div 2 ^ 32" by simp
  then show ?thesis
    by (simp add: getUint32_hi_def unsigned_ucast_eq unsigned_drop_bit_eq take_bit_nat_def drop_bit_nat_def)
qed

lemma toBitsString64_digits:
  "toBitsString64 (getUint32_hi v) (getUint32_lo v) = digitsMSB 2 64 (unat v)"
proof -
  have "digitsMSB 2 (32 + 32) (unat v) = digitsMSB 2 32 (unat v div 2 ^ 32) @ digitsMSB 2 32 (unat v)"
    by (rule digitsMSB_append)
  moreover have "digitsMSB 2 32 (unat v mod 2 ^ 32) = digitsMSB 2 32 (unat v)"
    by (rule digitsMSB_mod) simp
  ultimately show ?thesis
    by (simp add: toBitsString64_def toBitsString32_digits unat_lo unat_hi)
qed

lemma toHex64_digits:
  "toHex64 (getUint32_hi v) (getUint32_lo v) = digitsMSB 16 16 (unat v)"
proof -
  have "digitsMSB 16 (8 + 8) (unat v) = digitsMSB 16 8 (unat v div 16 ^ 8) @ digitsMSB 16 8 (unat v)"
    by (rule digitsMSB_append)
  moreover have "digitsMSB 16 8 (unat v mod 16 ^ 8) = digitsMSB 16 8 (unat v)"
    by (rule digitsMSB_mod) simp
  ultimately show ?thesis
    by (simp add: toHex64_def toHex32_digits unat_lo unat_hi)
qed

lemma concat_chunks: "0 < n \<Longrightarrow> concat (chunks n s) = s"
proof (induction n s rule: chunks.induct)
  case (1 n s)
  then show ?case by (subst chunks.simps) simp
qed

lemma length_chunks:
  "0 < n \<Longrightarrow> map length (chunks n s) =
     replicate (length s div n) n @ (if length s mod n = 0 then [] else [length s mod n])"
proof (induction n s rule: chunks.induct)
  case (1 n s)
  show ?case
  proof (cases "s = []")
    case True
    then show ?thesis by (subst chunks.simps) simp
  next
    case False
    show ?thesis
    proof (cases "length s < n")
      case True
      with False show ?thesis
        by (subst chunks.simps) (simp add: chunks.simps)
    next
      case ge: False
      then have le: "n \<le> length s" by simp
      have d: "length s div n = Suc ((length s - n) div n)"
        using "1.prems" le by (rule le_div_geq)
      have m: "length s mod n = (length s - n) mod n"
        using le by (rule le_mod_geq)
      from "1.IH" [OF _ "1.prems"] False "1.prems"
      have "map length (chunks n (drop n s)) =
          replicate ((length s - n) div n) n @ (if (length s - n) mod n = 0 then [] else [(length s - n) mod n])"
        by simp
      with False ge "1.prems" show ?thesis
        by (subst chunks.simps) (simp add: d m min_def)
    qed
  qed
qed

lemma digitChar_hex: "digitChar (d mod 16) \<in> set ''0123456789abcdef''"
proof -
  have "\<forall>e \<in> set [0..<16]. digitChar e \<in> set ''0123456789abcdef''"
    by (simp add: upt_rec digitChar_def)
  moreover have "d mod 16 \<in> set [0..<16]" by simp
  ultimately show ?thesis by blast
qed

lemma digitsMSB_hex: "set (digitsMSB 16 k n) \<subseteq> set ''0123456789abcdef''"
  unfolding digitsMSB_def using digitChar_hex by auto

lemma digitChar_bin: "digitChar (d mod 2) \<in> set ''01''"
proof -
  have "d mod 2 = 0 \<or> d mod 2 = 1" by auto
  then show ?thesis by (auto simp add: digitChar_def)
qed

lemma digitsMSB_bin: "set (digitsMSB 2 k n) \<subseteq> set ''01''"
  unfolding digitsMSB_def using digitChar_bin by auto

lemma bitsToHexPadded_23:
  "bitsToHexPadded (digitsMSB 2 23 n) = digitsMSB 16 6 (n mod 2 ^ 23)"
proof -
  have "digitsMSB 2 (1 + 23) (n mod 2 ^ 23)
      = digitsMSB 2 1 (n mod 2 ^ 23 div 2 ^ 23) @ digitsMSB 2 23 (n mod 2 ^ 23)"
    by (rule digitsMSB_append)
  moreover have "digitsMSB 2 23 (n mod 2 ^ 23) = digitsMSB 2 23 n"
    by (rule digitsMSB_mod) simp
  ultimately have p: "CHR ''0'' # digitsMSB 2 23 n = digitsMSB 2 24 (n mod 2 ^ 23)"
    by (simp add: digitsMSB_def [of 2 "Suc 0"] digitChar_0)
  have "bitsToHexPadded (digitsMSB 2 23 n) = bitsToHexLoop (CHR ''0'' # digitsMSB 2 23 n) 0 []"
    by (simp add: bitsToHexPadded_def length_digitsMSB repeat_def)
  also have "\<dots> = bitsToHexLoop (digitsMSB 2 24 (n mod 2 ^ 23)) 0 []"
    by (simp only: p)
  also have "\<dots> = digitsMSB 16 6 (n mod 2 ^ 23)"
    using bitsToHexLoop_digits [of "[]" 6 "n mod 2 ^ 23" "[]"] by simp
  finally show ?thesis .
qed

lemma strs64:
  fixes n :: nat
  defines "b \<equiv> digitsMSB 2 64 n"
  shows "slice b 0 1 = digitsMSB 2 1 (n div 2 ^ 63)"
    and "slice b 1 12 = digitsMSB 2 11 (n div 2 ^ 52)"
    and "sliceFrom b 12 = digitsMSB 2 52 n"
proof -
  show "slice b 0 1 = digitsMSB 2 1 (n div 2 ^ 63)"
    using take_digitsMSB [of 1 2 63 n] by (simp add: slice_def b_def)
  have "drop 1 b = digitsMSB 2 63 n"
    using drop_digitsMSB [of 1 2 63 n] by (simp add: b_def)
  then show "slice b 1 12 = digitsMSB 2 11 (n div 2 ^ 52)"
    using take_digitsMSB [of 11 2 52 n] by (simp add: slice_def)
  show "sliceFrom b 12 = digitsMSB 2 52 n"
    using drop_digitsMSB [of 12 2 52 n] by (simp add: sliceFrom_def b_def)
qed

lemma strs32:
  fixes n :: nat
  defines "b \<equiv> digitsMSB 2 32 n"
  shows "slice b 0 1 = digitsMSB 2 1 (n div 2 ^ 31)"
    and "slice b 1 9 = digitsMSB 2 8 (n div 2 ^ 23)"
    and "sliceFrom b 9 = digitsMSB 2 23 n"
proof -
  show "slice b 0 1 = digitsMSB 2 1 (n div 2 ^ 31)"
    using take_digitsMSB [of 1 2 31 n] by (simp add: slice_def b_def)
  have "drop 1 b = digitsMSB 2 31 n"
    using drop_digitsMSB [of 1 2 31 n] by (simp add: b_def)
  then show "slice b 1 9 = digitsMSB 2 8 (n div 2 ^ 23)"
    using take_digitsMSB [of 8 2 23 n] by (simp add: slice_def)
  show "sliceFrom b 9 = digitsMSB 2 23 n"
    using drop_digitsMSB [of 9 2 23 n] by (simp add: sliceFrom_def b_def)
qed

lemma float64Bits_eq:
  "float64Bits v =
    (let x = uint v; n = unat v;
         e = x div 2 ^ 32 div 2 ^ 20 mod 2 ^ 11; mh = x div 2 ^ 32 mod 2 ^ 20; ml = x mod 2 ^ 32;
         k = classifyFloat64 e mh ml;
         eb = digitsMSB 2 11 (n div 2 ^ 52); mb = digitsMSB 2 52 n
     in Some \<lparr> Float64BitsInfo.kind = k,
         signBit = x div 2 ^ 32 div 2 ^ 31 mod 2,
         exponentBits = e,
         mantissaHigh = mh,
         mantissaLow = ml,
         exponentUnbiased =
           (if k = Normal then Some (e - 1023) else if k = Subnormal then Some (- 1022) else None),
         hex = digitsMSB 16 16 n,
         bits = digitsMSB 2 64 n,
         hexGrouped = join '' '' (chunks 2 (digitsMSB 16 16 n)),
         bitsGrouped8 = join '' '' (chunks 8 (digitsMSB 2 64 n)),
         signBitsStr = digitsMSB 2 1 (n div 2 ^ 63),
         exponentBitsStr = eb,
         mantissaBitsStr = mb,
         exponentGrouped4 = slice eb 0 3 @ '' '' @ slice eb 3 7 @ '' '' @ slice eb 7 11,
         mantissaGrouped4 = join '' '' (chunks 4 mb),
         payloadBitsStr = mb,
         payloadGrouped4 = join '' '' (chunks 4 mb),
         payloadHexPadded = digitsMSB 16 13 n \<rparr>)"
proof -
  have hp: "padStart 13 (CHR ''0'') (bitsToHexPadded (digitsMSB 2 52 (unat v))) = digitsMSB 16 13 (unat v)"
    using bitsToHexPadded_digits [of 13 "unat v"] by (simp add: padStart_def length_digitsMSB)
  show ?thesis
    unfolding float64Bits_def Let_def toBitsString64_digits toHex64_digits strs64
      sint_fields uint_hi uint_lo hp groupEvery_chunks [OF zero_less_numeral]
    by simp
qed

lemma float32Bits_eq:
  "float32Bits v =
    (let u = setFloat32 v; x = uint u; n = unat u;
         e = x div 2 ^ 23 mod 2 ^ 8; m = x mod 2 ^ 23;
         k = classifyFloat32 e m;
         eb = digitsMSB 2 8 (n div 2 ^ 23); mb = digitsMSB 2 23 n
     in Some \<lparr> Float32BitsInfo.kind = k,
         signBit = x div 2 ^ 31 mod 2,
         exponentBits = e,
         mantissaBits = m,
         exponentUnbiased =
           (if k = Normal then Some (e - 127) else if k = Subnormal then Some (- 126) else None),
         hex = digitsMSB 16 8 n,
         bits = digitsMSB 2 32 n,
         hexGrouped = join '' '' (chunks 2 (digitsMSB 16 8 n)),
         bitsGrouped8 = join '' '' (chunks 8 (digitsMSB 2 32 n)),
         signBitsStr = digitsMSB 2 1 (n div 2 ^ 31),
         exponentBitsStr = eb,
         mantissaBitsStr = mb,
         exponentGrouped4 = join '' '' (chunks 4 eb),
         mantissaGrouped4 = join '' '' (chunks 4 mb),
         payloadBitsStr = mb,
         payloadGrouped4 = join '' '' (chunks 4 mb),
         payloadHexPadded = digitsMSB 16 6 (n mod 2 ^ 23) \<rparr>)"
proof -
  have hp: "padStart 6 (CHR ''0'') (bitsToHexPadded (digitsMSB 2 23 n)) = digitsMSB 16 6 (n mod 2 ^ 23)"
    for n by (simp add: bitsToHexPadded_23 padStart_def length_digitsMSB)
  show ?thesis
    unfolding float32Bits_def Let_def toBitsString32_digits toHex32_digits strs32
      sint_fields hp groupEvery_chunks [OF zero_less_numeral] groupWithRemainderAtEnd_def
    by simp
qed

lemma setFloat32_one: "setFloat32 0x3FF0000000000000 = 0x3f800000"
  by (simp add: setFloat32_def roundShift_def Let_def)

lemma hexGrouped_one:
  "\<exists>r. float32Bits 0x3FF0000000000000 = Some r \<and> Float32BitsInfo.hexGrouped r = ''3f 80 00 00''"
  by (simp add: float32Bits_eq setFloat32_one Let_def digitsMSB_def digitChar_def chunks.simps upt_rec)

lemma grouped_chunks:
  "0 < n \<Longrightarrow> \<exists>cs. join sep (chunks n s) = join sep cs \<and> concat cs = s \<and>
      map length cs = replicate (length s div n) n @ (if length s mod n = 0 then [] else [length s mod n])"
  using concat_chunks [of n s] length_chunks [of n s] by blast

lemma float64Bits_fields:
  shows "float64Bits v = Some (the (float64Bits v))"
    and "Float64BitsInfo.kind (the (float64Bits v)) = classifyFloat64 (uint v div 2 ^ 32 div 2 ^ 20 mod 2 ^ 11)
           (uint v div 2 ^ 32 mod 2 ^ 20) (uint v mod 2 ^ 32)"
    and "Float64BitsInfo.signBit (the (float64Bits v)) = uint v div 2 ^ 32 div 2 ^ 31 mod 2"
    and "Float64BitsInfo.exponentBits (the (float64Bits v)) = uint v div 2 ^ 32 div 2 ^ 20 mod 2 ^ 11"
    and "mantissaHigh (the (float64Bits v)) = uint v div 2 ^ 32 mod 2 ^ 20"
    and "mantissaLow (the (float64Bits v)) = uint v mod 2 ^ 32"
    and "Float64BitsInfo.hex (the (float64Bits v)) = digitsMSB 16 16 (unat v)"
    and "Float64BitsInfo.bits (the (float64Bits v)) = digitsMSB 2 64 (unat v)"
    and "Float64BitsInfo.hexGrouped (the (float64Bits v)) = join '' '' (chunks 2 (digitsMSB 16 16 (unat v)))"
    and "Float64BitsInfo.signBitsStr (the (float64Bits v)) = digitsMSB 2 1 (unat v div 2 ^ 63)"
    and "Float64BitsInfo.exponentBitsStr (the (float64Bits v)) = digitsMSB 2 11 (unat v div 2 ^ 52)"
    and "Float64BitsInfo.mantissaBitsStr (the (float64Bits v)) = digitsMSB 2 52 (unat v)"
    and "Float64BitsInfo.exponentGrouped4 (the (float64Bits v)) =
           slice (digitsMSB 2 11 (unat v div 2 ^ 52)) 0 3 @ '' '' @
           slice (digitsMSB 2 11 (unat v div 2 ^ 52)) 3 7 @ '' '' @
           slice (digitsMSB 2 11 (unat v div 2 ^ 52)) 7 11"
    and "Float64BitsInfo.mantissaGrouped4 (the (float64Bits v)) = join '' '' (chunks 4 (digitsMSB 2 52 (unat v)))"
    and "Float64BitsInfo.payloadBitsStr (the (float64Bits v)) = digitsMSB 2 52 (unat v)"
    and "Float64BitsInfo.payloadGrouped4 (the (float64Bits v)) = join '' '' (chunks 4 (digitsMSB 2 52 (unat v)))"
    and "Float64BitsInfo.payloadHexPadded (the (float64Bits v)) = digitsMSB 16 13 (unat v)"
  by (simp_all add: float64Bits_eq Let_def)

lemma float32Bits_fields:
  shows "float32Bits v = Some (the (float32Bits v))"
    and "Float32BitsInfo.kind (the (float32Bits v)) = classifyFloat32 (uint (setFloat32 v) div 2 ^ 23 mod 2 ^ 8)
           (uint (setFloat32 v) mod 2 ^ 23)"
    and "Float32BitsInfo.signBit (the (float32Bits v)) = uint (setFloat32 v) div 2 ^ 31 mod 2"
    and "Float32BitsInfo.exponentBits (the (float32Bits v)) = uint (setFloat32 v) div 2 ^ 23 mod 2 ^ 8"
    and "mantissaBits (the (float32Bits v)) = uint (setFloat32 v) mod 2 ^ 23"
    and "Float32BitsInfo.hex (the (float32Bits v)) = digitsMSB 16 8 (unat (setFloat32 v))"
    and "Float32BitsInfo.bits (the (float32Bits v)) = digitsMSB 2 32 (unat (setFloat32 v))"
    and "Float32BitsInfo.hexGrouped (the (float32Bits v)) = join '' '' (chunks 2 (digitsMSB 16 8 (unat (setFloat32 v))))"
    and "Float32BitsInfo.signBitsStr (the (float32Bits v)) = digitsMSB 2 1 (unat (setFloat32 v) div 2 ^ 31)"
    and "Float32BitsInfo.exponentBitsStr (the (float32Bits v)) = digitsMSB 2 8 (unat (setFloat32 v) div 2 ^ 23)"
    and "Float32BitsInfo.mantissaBitsStr (the (float32Bits v)) = digitsMSB 2 23 (unat (setFloat32 v))"
    and "Float32BitsInfo.exponentGrouped4 (the (float32Bits v)) =
           join '' '' (chunks 4 (digitsMSB 2 8 (unat (setFloat32 v) div 2 ^ 23)))"
    and "Float32BitsInfo.mantissaGrouped4 (the (float32Bits v)) = join '' '' (chunks 4 (digitsMSB 2 23 (unat (setFloat32 v))))"
    and "Float32BitsInfo.payloadBitsStr (the (float32Bits v)) = digitsMSB 2 23 (unat (setFloat32 v))"
    and "Float32BitsInfo.payloadGrouped4 (the (float32Bits v)) = join '' '' (chunks 4 (digitsMSB 2 23 (unat (setFloat32 v))))"
    and "Float32BitsInfo.payloadHexPadded (the (float32Bits v)) = digitsMSB 16 6 (unat (setFloat32 v) mod 2 ^ 23)"
  by (simp_all add: float32Bits_eq Let_def)

lemma exponentGrouped4_shape:
  assumes "length eb = 11"
  shows "\<exists>cs. slice eb 0 3 @ '' '' @ slice eb 3 7 @ '' '' @ slice eb 7 11 = join '' '' cs \<and>
      concat cs = eb \<and> map length cs = [3, 4, 4]"
proof (intro exI conjI)
  show "slice eb 0 3 @ '' '' @ slice eb 3 7 @ '' '' @ slice eb 7 11
      = join '' '' [take 3 eb, take 4 (drop 3 eb), drop 7 eb]"
    using assms by (simp add: slice_def)
  have "take 4 (drop 3 eb) @ drop 4 (drop 3 eb) = drop 3 eb"
    by (rule append_take_drop_id)
  then have "take 3 eb @ take 4 (drop 3 eb) @ drop 7 eb = take 3 eb @ drop 3 eb"
    by simp
  then show "concat [take 3 eb, take 4 (drop 3 eb), drop 7 eb] = eb" by simp
  show "map length [take 3 eb, take 4 (drop 3 eb), drop 7 eb] = [3, 4, 4]"
    using assms by simp
qed


lemma exp64_field: "(x::int) div 2 ^ 32 div 2 ^ 20 mod 2 ^ 11 = x div 2 ^ 52 mod 2 ^ 11"
  by (simp add: zdiv_zmult2_eq [symmetric])

lemma mant64_field: "((x::int) div 2 ^ 32 mod 2 ^ 20) * 2 ^ 32 + x mod 2 ^ 32 = x mod 2 ^ 52"
proof -
  have "x mod (2 ^ 32 * 2 ^ 20) = 2 ^ 32 * (x div 2 ^ 32 mod 2 ^ 20) + x mod 2 ^ 32"
    by (rule zmod_zmult2_eq) simp
  then show ?thesis by simp
qed


lemma digitsMSB_bits:
  "digitsMSB 2 k (unat (v :: 'a::len word)) = map (\<lambda>i. if bit v i then CHR ''1'' else CHR ''0'') (rev [0..<k])"
proof -
  have "digitChar ((unat v div 2 ^ i) mod 2) = (if bit v i then CHR ''1'' else CHR ''0'')" for i
  proof -
    have "bit v i = bit (unat v) i" by (simp add: bit_unsigned_iff)
    also have "\<dots> = odd (unat v div 2 ^ i)" by (simp add: bit_iff_odd)
    finally have b: "bit v i = odd (unat v div 2 ^ i)" .
    show ?thesis
      by (cases "odd (unat v div 2 ^ i)") (simp_all add: b digitChar_def odd_iff_mod_2_eq_one)
  qed
  then show ?thesis by (simp add: digitsMSB_def)
qed

lemma fields64_concat:
  "digitsMSB 2 1 (n div 2 ^ 63) @ digitsMSB 2 11 (n div 2 ^ 52) @ digitsMSB 2 52 n = digitsMSB 2 64 n"
  using digitsMSB_append [of 2 11 52 n] digitsMSB_append [of 2 1 63 n] by simp


lemma setFloat32_minus_five_quarters: "setFloat32 0xBFF4000000000000 = 0xbfa00000"
  by (simp add: setFloat32_def roundShift_def Let_def)


section \<open>Claims about the bit-field extractor\<close>

text \<open>
  Claim C1. For every double \<open>v\<close>, \<open>float32Bits(v)\<close> and \<open>float64Bits(v)\<close> return, and
  the \<open>kind\<close> they return is a function of the extracted biased exponent and mantissa
  alone: exponent 0 and mantissa 0 is Zero, exponent 0 and mantissa non-zero is
  Subnormal, exponent all ones (255, resp. 2047) and mantissa 0 is Infinity, exponent
  all ones and mantissa non-zero is NaN, every other exponent is Normal. The extracted
  fields are the exponent and mantissa fields of the encoded bit pattern.
\<close>

theorem C1_kind_from_exponent_and_mantissa:
  "(\<exists>r. float32Bits v = Some r \<and>
        Float32BitsInfo.exponentBits r = uint (setFloat32 v) div 2 ^ 23 mod 2 ^ 8 \<and>
        mantissaBits r = uint (setFloat32 v) mod 2 ^ 23 \<and>
        Float32BitsInfo.kind r =
          (if Float32BitsInfo.exponentBits r = 0
           then (if mantissaBits r = 0 then Zero else Subnormal)
           else if Float32BitsInfo.exponentBits r = 255
           then (if mantissaBits r = 0 then Infinity else NaN)
           else Normal)) \<and>
   (\<exists>r. float64Bits v = Some r \<and>
        Float64BitsInfo.exponentBits r = uint v div 2 ^ 52 mod 2 ^ 11 \<and>
        mantissaHigh r * 2 ^ 32 + mantissaLow r = uint v mod 2 ^ 52 \<and>
        0 \<le> mantissaHigh r \<and> 0 \<le> mantissaLow r \<and>
        Float64BitsInfo.kind r =
          (if Float64BitsInfo.exponentBits r = 0
           then (if mantissaHigh r = 0 \<and> mantissaLow r = 0 then Zero else Subnormal)
           else if Float64BitsInfo.exponentBits r = 2047
           then (if mantissaHigh r = 0 \<and> mantissaLow r = 0 then Infinity else NaN)
           else Normal))"
proof (intro conjI)
  show "\<exists>r. float32Bits v = Some r \<and>
        Float32BitsInfo.exponentBits r = uint (setFloat32 v) div 2 ^ 23 mod 2 ^ 8 \<and>
        mantissaBits r = uint (setFloat32 v) mod 2 ^ 23 \<and>
        Float32BitsInfo.kind r =
          (if Float32BitsInfo.exponentBits r = 0
           then (if mantissaBits r = 0 then Zero else Subnormal)
           else if Float32BitsInfo.exponentBits r = 255
           then (if mantissaBits r = 0 then Infinity else NaN)
           else Normal)"
  proof (intro exI [of _ "the (float32Bits v)"] conjI)
    show "float32Bits v = Some (the (float32Bits v))" by (rule float32Bits_fields(1))
    show "Float32BitsInfo.exponentBits (the (float32Bits v)) = uint (setFloat32 v) div 2 ^ 23 mod 2 ^ 8"
      by (rule float32Bits_fields(4))
    show "mantissaBits (the (float32Bits v)) = uint (setFloat32 v) mod 2 ^ 23"
      by (rule float32Bits_fields(5))
    show "Float32BitsInfo.kind (the (float32Bits v)) =
      (if Float32BitsInfo.exponentBits (the (float32Bits v)) = 0
       then if mantissaBits (the (float32Bits v)) = 0 then Zero else Subnormal
       else if Float32BitsInfo.exponentBits (the (float32Bits v)) = 255
            then if mantissaBits (the (float32Bits v)) = 0 then Infinity else NaN
            else Normal)"
      by (simp add: float32Bits_fields(2,4,5) classifyFloat32_def)
  qed
next
  have e: "Float64BitsInfo.exponentBits (the (float64Bits v)) = uint v div 2 ^ 52 mod 2 ^ 11"
    by (simp only: float64Bits_fields(4) exp64_field)
  have m: "mantissaHigh (the (float64Bits v)) * 2 ^ 32 + mantissaLow (the (float64Bits v))
      = uint v mod 2 ^ 52"
    by (simp only: float64Bits_fields(5,6) mant64_field)
  have p: "0 \<le> mantissaHigh (the (float64Bits v))" "0 \<le> mantissaLow (the (float64Bits v))"
    by (simp_all add: float64Bits_fields(5,6) pos_imp_zdiv_nonneg_iff)
  have k: "Float64BitsInfo.kind (the (float64Bits v)) =
          (if Float64BitsInfo.exponentBits (the (float64Bits v)) = 0
           then (if mantissaHigh (the (float64Bits v)) = 0 \<and> mantissaLow (the (float64Bits v)) = 0
                 then Zero else Subnormal)
           else if Float64BitsInfo.exponentBits (the (float64Bits v)) = 2047
           then (if mantissaHigh (the (float64Bits v)) = 0 \<and> mantissaLow (the (float64Bits v)) = 0
                 then Infinity else NaN)
           else Normal)"
    by (simp add: float64Bits_fields(2,4,5,6) classifyFloat64_def Let_def)
  from float64Bits_fields(1) [of v] e m p k
  show "\<exists>r. float64Bits v = Some r \<and>
        Float64BitsInfo.exponentBits r = uint v div 2 ^ 52 mod 2 ^ 11 \<and>
        mantissaHigh r * 2 ^ 32 + mantissaLow r = uint v mod 2 ^ 52 \<and>
        0 \<le> mantissaHigh r \<and> 0 \<le> mantissaLow r \<and>
        Float64BitsInfo.kind r =
          (if Float64BitsInfo.exponentBits r = 0
           then (if mantissaHigh r = 0 \<and> mantissaLow r = 0 then Zero else Subnormal)
           else if Float64BitsInfo.exponentBits r = 2047
           then (if mantissaHigh r = 0 \<and> mantissaLow r = 0 then Infinity else NaN)
           else Normal)"
    by (intro exI [of _ "the (float64Bits v)"] conjI)
qed


text \<open>
  Claim C2. For every double \<open>v\<close>, the numeric fields of \<open>float64Bits(v)\<close> rebuild its
  64-bit pattern: \<open>signBit * 2^63 + exponentBits * 2^52 + mantissaHigh * 2^32 +
  mantissaLow\<close> is the pattern read as an unsigned integer, each field lying in its own
  range. The sign, exponent and mantissa bit strings concatenate to the 64-character
  \<open>bits\<close> string, which lists the bits of the pattern from bit 63 down to bit 0, and
  converting that concatenation to hex gives the 16-character \<open>hex\<close> string, the 16 hex
  digits of the pattern.
\<close>

theorem C2_float64_fields_reconstruct_pattern:
  "\<exists>r. float64Bits v = Some r \<and>
     Float64BitsInfo.signBit r * 2 ^ 63 + Float64BitsInfo.exponentBits r * 2 ^ 52 +
       mantissaHigh r * 2 ^ 32 + mantissaLow r = uint v \<and>
     (Float64BitsInfo.signBit r = 0 \<or> Float64BitsInfo.signBit r = 1) \<and>
     0 \<le> Float64BitsInfo.exponentBits r \<and> Float64BitsInfo.exponentBits r < 2 ^ 11 \<and>
     0 \<le> mantissaHigh r \<and> mantissaHigh r < 2 ^ 20 \<and>
     0 \<le> mantissaLow r \<and> mantissaLow r < 2 ^ 32 \<and>
     Float64BitsInfo.signBitsStr r @ Float64BitsInfo.exponentBitsStr r @
       Float64BitsInfo.mantissaBitsStr r = Float64BitsInfo.bits r \<and>
     length (Float64BitsInfo.bits r) = 64 \<and>
     Float64BitsInfo.bits r = map (\<lambda>i. if bit v i then CHR ''1'' else CHR ''0'') (rev [0..<64]) \<and>
     length (Float64BitsInfo.hex r) = 16 \<and>
     Float64BitsInfo.hex r = digitsMSB 16 16 (unat v) \<and>
     bitsToHexPadded (Float64BitsInfo.signBitsStr r @ Float64BitsInfo.exponentBitsStr r @
       Float64BitsInfo.mantissaBitsStr r) = Float64BitsInfo.hex r"
proof (intro exI [of _ "the (float64Bits v)"] conjI)
  let ?r = "the (float64Bits v)"
  let ?x = "uint v"
  have x0: "0 \<le> ?x" by simp
  have x1: "?x < 2 ^ 64" using unsigned_less [of v, where 'a = int] by simp
  show "float64Bits v = Some ?r" by (rule float64Bits_fields(1))
  show "Float64BitsInfo.signBit ?r * 2 ^ 63 + Float64BitsInfo.exponentBits ?r * 2 ^ 52 +
       mantissaHigh ?r * 2 ^ 32 + mantissaLow ?r = uint v"
    unfolding float64Bits_fields(3-6) by (rule split64 [OF x0 x1])
  have "?x div 2 ^ 32 div 2 ^ 31 mod 2 = 0 \<or> ?x div 2 ^ 32 div 2 ^ 31 mod 2 = 1"
    by auto
  then show "Float64BitsInfo.signBit ?r = 0 \<or> Float64BitsInfo.signBit ?r = 1"
    unfolding float64Bits_fields(3) .
  show "0 \<le> Float64BitsInfo.exponentBits ?r" "Float64BitsInfo.exponentBits ?r < 2 ^ 11"
    "0 \<le> mantissaHigh ?r" "mantissaHigh ?r < 2 ^ 20" "0 \<le> mantissaLow ?r" "mantissaLow ?r < 2 ^ 32"
    unfolding float64Bits_fields(4-6) by simp_all
  show cat: "Float64BitsInfo.signBitsStr ?r @ Float64BitsInfo.exponentBitsStr ?r @
       Float64BitsInfo.mantissaBitsStr ?r = Float64BitsInfo.bits ?r"
    unfolding float64Bits_fields(8,10-12) by (rule fields64_concat)
  show "length (Float64BitsInfo.bits ?r) = 64"
    unfolding float64Bits_fields(8) by (rule length_digitsMSB)
  show "Float64BitsInfo.bits ?r = map (\<lambda>i. if bit v i then CHR ''1'' else CHR ''0'') (rev [0..<64])"
    unfolding float64Bits_fields(8) by (rule digitsMSB_bits)
  show "length (Float64BitsInfo.hex ?r) = 16"
    unfolding float64Bits_fields(7) by (rule length_digitsMSB)
  show "Float64BitsInfo.hex ?r = digitsMSB 16 16 (unat v)"
    by (rule float64Bits_fields(7))
  show "bitsToHexPadded (Float64BitsInfo.signBitsStr ?r @ Float64BitsInfo.exponentBitsStr ?r @
       Float64BitsInfo.mantissaBitsStr ?r) = Float64BitsInfo.hex ?r"
    unfolding cat float64Bits_fields(7,8)
    using bitsToHexPadded_digits [of 16 "unat v"] by simp
qed

text \<open>
  Claim C6. For every double \<open>v\<close>, \<open>exponentUnbiased\<close> of \<open>float32Bits(v)\<close>
  (resp. \<open>float64Bits(v)\<close>) is \<open>exponentBits - 127\<close> (resp. \<open>exponentBits - 1023\<close>) when
  the kind is Normal, the constant \<open>-126\<close> (resp. \<open>-1022\<close>) when it is Subnormal, and
  null (\<open>None\<close>) when it is Zero, Infinity or NaN.
\<close>

theorem C6_exponentUnbiased:
  "(\<exists>r. float32Bits v = Some r \<and>
        Float32BitsInfo.exponentUnbiased r =
          (case Float32BitsInfo.kind r of
             Normal \<Rightarrow> Some (Float32BitsInfo.exponentBits r - 127)
           | Subnormal \<Rightarrow> Some (- 126)
           | Zero \<Rightarrow> None | Infinity \<Rightarrow> None | NaN \<Rightarrow> None)) \<and>
   (\<exists>r. float64Bits v = Some r \<and>
        Float64BitsInfo.exponentUnbiased r =
          (case Float64BitsInfo.kind r of
             Normal \<Rightarrow> Some (Float64BitsInfo.exponentBits r - 1023)
           | Subnormal \<Rightarrow> Some (- 1022)
           | Zero \<Rightarrow> None | Infinity \<Rightarrow> None | NaN \<Rightarrow> None))"
  by (simp add: float32Bits_def float64Bits_def groupEvery_chunks groupWithRemainderAtEnd_def
      Let_def classifyFloat32_def classifyFloat64_def)

text \<open>
  Claim C8. For every double \<open>v\<close> the grouped strings have fixed shapes. For
  \<open>float64Bits\<close>: \<open>exponentGrouped4\<close> is the 11-bit exponent string cut into pieces of
  3, 4 and 4 bits joined by single spaces; \<open>mantissaGrouped4\<close> is the 52-bit mantissa
  string cut into thirteen pieces of 4 bits; \<open>payloadHexPadded\<close> has exactly 13 hex
  digits. For \<open>float32Bits\<close>: \<open>mantissaGrouped4\<close> is the 23-bit mantissa string cut into
  five pieces of 4 bits and a last piece of 3 bits; \<open>payloadHexPadded\<close> has exactly 6 hex
  digits. In both widths \<open>payloadBitsStr\<close> and \<open>payloadGrouped4\<close> equal the mantissa
  strings, \<open>hexGrouped\<close> is the hex string cut into pieces of 2 characters joined by
  single spaces, and \<open>float32Bits(1.0).hexGrouped\<close> is \<open>"3f 80 00 00"\<close>. The pieces
  hold binary digits only, so the spaces are exactly the separators.
\<close>

theorem C8_grouped_shapes:
  "(\<exists>r. float64Bits v = Some r \<and>
      (\<exists>cs. Float64BitsInfo.exponentGrouped4 r = join '' '' cs \<and>
            concat cs = Float64BitsInfo.exponentBitsStr r \<and> map length cs = [3, 4, 4]) \<and>
      (\<exists>cs. Float64BitsInfo.mantissaGrouped4 r = join '' '' cs \<and>
            concat cs = Float64BitsInfo.mantissaBitsStr r \<and> map length cs = replicate 13 4) \<and>
      set (Float64BitsInfo.mantissaBitsStr r) \<subseteq> set ''01'' \<and>
      length (Float64BitsInfo.payloadHexPadded r) = 13 \<and>
      set (Float64BitsInfo.payloadHexPadded r) \<subseteq> set ''0123456789abcdef'' \<and>
      Float64BitsInfo.payloadBitsStr r = Float64BitsInfo.mantissaBitsStr r \<and>
      Float64BitsInfo.payloadGrouped4 r = Float64BitsInfo.mantissaGrouped4 r \<and>
      (\<exists>cs. Float64BitsInfo.hexGrouped r = join '' '' cs \<and>
            concat cs = Float64BitsInfo.hex r \<and> map length cs = replicate 8 2)) \<and>
   (\<exists>r. float32Bits v = Some r \<and>
      (\<exists>cs. Float32BitsInfo.mantissaGrouped4 r = join '' '' cs \<and>
            concat cs = Float32BitsInfo.mantissaBitsStr r \<and> map length cs = [4, 4, 4, 4, 4, 3]) \<and>
      set (Float32BitsInfo.mantissaBitsStr r) \<subseteq> set ''01'' \<and>
      length (Float32BitsInfo.payloadHexPadded r) = 6 \<and>
      set (Float32BitsInfo.payloadHexPadded r) \<subseteq> set ''0123456789abcdef'' \<and>
      Float32BitsInfo.payloadBitsStr r = Float32BitsInfo.mantissaBitsStr r \<and>
      Float32BitsInfo.payloadGrouped4 r = Float32BitsInfo.mantissaGrouped4 r \<and>
      (\<exists>cs. Float32BitsInfo.hexGrouped r = join '' '' cs \<and>
            concat cs = Float32BitsInfo.hex r \<and> map length cs = replicate 4 2)) \<and>
   (\<exists>r. float32Bits 0x3FF0000000000000 = Some r \<and>
      Float32BitsInfo.hexGrouped r = ''3f 80 00 00'')"
proof (intro conjI)
  let ?n = "unat v"
  define r where "r = the (float64Bits v)"
  have r: "float64Bits v = Some r"
    and eb: "Float64BitsInfo.exponentBitsStr r = digitsMSB 2 11 (?n div 2 ^ 52)"
    and mb: "Float64BitsInfo.mantissaBitsStr r = digitsMSB 2 52 ?n"
    and eg: "Float64BitsInfo.exponentGrouped4 r =
           slice (digitsMSB 2 11 (?n div 2 ^ 52)) 0 3 @ '' '' @
           slice (digitsMSB 2 11 (?n div 2 ^ 52)) 3 7 @ '' '' @
           slice (digitsMSB 2 11 (?n div 2 ^ 52)) 7 11"
    and mg: "Float64BitsInfo.mantissaGrouped4 r = join '' '' (chunks 4 (digitsMSB 2 52 ?n))"
    and pb: "Float64BitsInfo.payloadBitsStr r = digitsMSB 2 52 ?n"
    and pg: "Float64BitsInfo.payloadGrouped4 r = join '' '' (chunks 4 (digitsMSB 2 52 ?n))"
    and ph: "Float64BitsInfo.payloadHexPadded r = digitsMSB 16 13 ?n"
    and hx: "Float64BitsInfo.hex r = digitsMSB 16 16 ?n"
    and hg: "Float64BitsInfo.hexGrouped r = join '' '' (chunks 2 (digitsMSB 16 16 ?n))"
    unfolding r_def by (rule float64Bits_fields)+
  have e: "\<exists>cs. Float64BitsInfo.exponentGrouped4 r = join '' '' cs \<and>
            concat cs = Float64BitsInfo.exponentBitsStr r \<and> map length cs = [3, 4, 4]"
    unfolding eg eb by (rule exponentGrouped4_shape) (simp add: length_digitsMSB)
  have m: "\<exists>cs. Float64BitsInfo.mantissaGrouped4 r = join '' '' cs \<and>
            concat cs = Float64BitsInfo.mantissaBitsStr r \<and> map length cs = replicate 13 4"
    unfolding mg mb
    using grouped_chunks [of 4 "'' ''" "digitsMSB 2 52 ?n"] by (simp add: length_digitsMSB)
  have h: "\<exists>cs. Float64BitsInfo.hexGrouped r = join '' '' cs \<and>
            concat cs = Float64BitsInfo.hex r \<and> map length cs = replicate 8 2"
    unfolding hg hx
    using grouped_chunks [of 2 "'' ''" "digitsMSB 16 16 ?n"] by (simp add: length_digitsMSB)
  have b: "set (Float64BitsInfo.mantissaBitsStr r) \<subseteq> set ''01''"
    unfolding mb by (rule digitsMSB_bin)
  have l: "length (Float64BitsInfo.payloadHexPadded r) = 13"
    unfolding ph by (rule length_digitsMSB)
  have d: "set (Float64BitsInfo.payloadHexPadded r) \<subseteq> set ''0123456789abcdef''"
    unfolding ph by (rule digitsMSB_hex)
  have p: "Float64BitsInfo.payloadBitsStr r = Float64BitsInfo.mantissaBitsStr r"
    "Float64BitsInfo.payloadGrouped4 r = Float64BitsInfo.mantissaGrouped4 r"
    by (simp_all only: pb mb pg mg)
  from r e m b l d p h
  show "\<exists>r. float64Bits v = Some r \<and>
      (\<exists>cs. Float64BitsInfo.exponentGrouped4 r = join '' '' cs \<and>
            concat cs = Float64BitsInfo.exponentBitsStr r \<and> map length cs = [3, 4, 4]) \<and>
      (\<exists>cs. Float64BitsInfo.mantissaGrouped4 r = join '' '' cs \<and>
            concat cs = Float64BitsInfo.mantissaBitsStr r \<and> map length cs = replicate 13 4) \<and>
      set (Float64BitsInfo.mantissaBitsStr r) \<subseteq> set ''01'' \<and>
      length (Float64BitsInfo.payloadHexPadded r) = 13 \<and>
      set (Float64BitsInfo.payloadHexPadded r) \<subseteq> set ''0123456789abcdef'' \<and>
      Float64BitsInfo.payloadBitsStr r = Float64BitsInfo.mantissaBitsStr r \<and>
      Float64BitsInfo.payloadGrouped4 r = Float64BitsInfo.mantissaGrouped4 r \<and>
      (\<exists>cs. Float64BitsInfo.hexGrouped r = join '' '' cs \<and>
            concat cs = Float64BitsInfo.hex r \<and> map length cs = replicate 8 2)"
    by (intro exI [of _ r] conjI)
next
  let ?n = "unat (setFloat32 v)"
  define r where "r = the (float32Bits v)"
  have r: "float32Bits v = Some r"
    and mb: "Float32BitsInfo.mantissaBitsStr r = digitsMSB 2 23 ?n"
    and mg: "Float32BitsInfo.mantissaGrouped4 r = join '' '' (chunks 4 (digitsMSB 2 23 ?n))"
    and pb: "Float32BitsInfo.payloadBitsStr r = digitsMSB 2 23 ?n"
    and pg: "Float32BitsInfo.payloadGrouped4 r = join '' '' (chunks 4 (digitsMSB 2 23 ?n))"
    and ph: "Float32BitsInfo.payloadHexPadded r = digitsMSB 16 6 (?n mod 2 ^ 23)"
    and hx: "Float32BitsInfo.hex r = digitsMSB 16 8 ?n"
    and hg: "Float32BitsInfo.hexGrouped r = join '' '' (chunks 2 (digitsMSB 16 8 ?n))"
    unfolding r_def by (rule float32Bits_fields)+
  have m: "\<exists>cs. Float32BitsInfo.mantissaGrouped4 r = join '' '' cs \<and>
            concat cs = Float32BitsInfo.mantissaBitsStr r \<and> map length cs = [4, 4, 4, 4, 4, 3]"
  proof -
    have rep: "replicate 5 x = [x, x, x, x, x]" for x :: nat
      by (simp add: numeral_eq_Suc)
    show ?thesis
      unfolding mg mb
      using grouped_chunks [of 4 "'' ''" "digitsMSB 2 23 ?n"]
      by (simp add: length_digitsMSB rep)
  qed
  have h: "\<exists>cs. Float32BitsInfo.hexGrouped r = join '' '' cs \<and>
            concat cs = Float32BitsInfo.hex r \<and> map length cs = replicate 4 2"
    unfolding hg hx
    using grouped_chunks [of 2 "'' ''" "digitsMSB 16 8 ?n"] by (simp add: length_digitsMSB)
  have b: "set (Float32BitsInfo.mantissaBitsStr r) \<subseteq> set ''01''"
    unfolding mb by (rule digitsMSB_bin)
  have l: "length (Float32BitsInfo.payloadHexPadded r) = 6"
    unfolding ph by (rule length_digitsMSB)
  have d: "set (Float32BitsInfo.payloadHexPadded r) \<subseteq> set ''0123456789abcdef''"
    unfolding ph by (rule digitsMSB_hex)
  have p: "Float32BitsInfo.payloadBitsStr r = Float32BitsInfo.mantissaBitsStr r"
    "Float32BitsInfo.payloadGrouped4 r = Float32BitsInfo.mantissaGrouped4 r"
    by (simp_all only: pb mb pg mg)
  from r m b l d p h
  show "\<exists>r. float32Bits v = Some r \<and>
      (\<exists>cs. Float32BitsInfo.mantissaGrouped4 r = join '' '' cs \<and>
            concat cs = Float32BitsInfo.mantissaBitsStr r \<and> map length cs = [4, 4, 4, 4, 4, 3]) \<and>
      set (Float32BitsInfo.mantissaBitsStr r) \<subseteq> set ''01'' \<and>
      length (Float32BitsInfo.payloadHexPadded r) = 6 \<and>
      set (Float32BitsInfo.payloadHexPadded r) \<subseteq> set ''0123456789abcdef'' \<and>
      Float32BitsInfo.payloadBitsStr r = Float32BitsInfo.mantissaBitsStr r \<and>
      Float32BitsInfo.payloadGrouped4 r = Float32BitsInfo.mantissaGrouped4 r \<and>
      (\<exists>cs. Float32BitsInfo.hexGrouped r = join '' '' cs \<and>
            concat cs = Float32BitsInfo.hex r \<and> map length cs = replicate 4 2)"
    by (intro exI [of _ r] conjI)
next
  show "\<exists>r. float32Bits 0x3FF0000000000000 = Some r \<and>
      Float32BitsInfo.hexGrouped r = ''3f 80 00 00''"
    by (rule hexGrouped_one)
qed

section \<open>Facts about the lexical classifier\<close>

subsection \<open>The matcher decides the language\<close>

lemma conc_Cons_iff:
  "c # w \<in> conc A B \<longleftrightarrow> (\<exists>u v. c # u \<in> A \<and> v \<in> B \<and> w = u @ v) \<or> ([] \<in> A \<and> c # w \<in> B)"
proof
  assume "c # w \<in> conc A B"
  then obtain xs ys where xy: "c # w = xs @ ys" "xs \<in> A" "ys \<in> B"
    by (auto simp: conc_def)
  show "(\<exists>u v. c # u \<in> A \<and> v \<in> B \<and> w = u @ v) \<or> ([] \<in> A \<and> c # w \<in> B)"
  proof (cases xs)
    case Nil
    with xy show ?thesis by simp
  next
    case (Cons x u)
    with xy have "c # u \<in> A" "w = u @ ys" by simp_all
    with xy(3) show ?thesis by blast
  qed
next
  assume "(\<exists>u v. c # u \<in> A \<and> v \<in> B \<and> w = u @ v) \<or> ([] \<in> A \<and> c # w \<in> B)"
  then show "c # w \<in> conc A B"
  proof
    assume "\<exists>u v. c # u \<in> A \<and> v \<in> B \<and> w = u @ v"
    then obtain u v where "c # u \<in> A" "v \<in> B" "w = u @ v" by blast
    then have "(c # u) @ v \<in> conc A B" unfolding conc_def by blast
    with \<open>w = u @ v\<close> show ?thesis by simp
  next
    assume "[] \<in> A \<and> c # w \<in> B"
    then have "[] @ (c # w) \<in> conc A B" unfolding conc_def by blast
    then show ?thesis by simp
  qed
qed

lemma Nil_in_conc: "[] \<in> conc A B \<longleftrightarrow> [] \<in> A \<and> [] \<in> B"
  by (auto simp: conc_def)

lemma star_Cons_iff:
  "c # w \<in> star A \<longleftrightarrow> (\<exists>u v. c # u \<in> A \<and> v \<in> star A \<and> w = u @ v)"
proof
  assume "c # w \<in> star A"
  then show "\<exists>u v. c # u \<in> A \<and> v \<in> star A \<and> w = u @ v"
  proof (induction "c # w" rule: star.induct)
    case (star_step xs ys)
    show ?case
    proof (cases xs)
      case Nil
      with star_step show ?thesis by simp
    next
      case (Cons x u)
      with star_step.hyps have "c # u \<in> A" "w = u @ ys" by simp_all
      with star_step.hyps(2) show ?thesis by blast
    qed
  qed
next
  assume "\<exists>u v. c # u \<in> A \<and> v \<in> star A \<and> w = u @ v"
  then obtain u v where "c # u \<in> A" "v \<in> star A" "w = u @ v" by blast
  then have "(c # u) @ v \<in> star A" by (intro star.star_step)
  with \<open>w = u @ v\<close> show "c # w \<in> star A" by simp
qed

lemma conc_deriv:
  "{w. c # w \<in> conc A B} = conc {u. c # u \<in> A} B \<union> (if [] \<in> A then {w. c # w \<in> B} else {})"
proof -
  have "w \<in> conc {u. c # u \<in> A} B \<longleftrightarrow> (\<exists>u v. c # u \<in> A \<and> v \<in> B \<and> w = u @ v)" for w
    unfolding conc_def by blast
  then show ?thesis
    by (auto simp: conc_Cons_iff)
qed

lemma star_deriv: "{w. c # w \<in> star A} = conc {u. c # u \<in> A} (star A)"
proof -
  have "w \<in> conc {u. c # u \<in> A} (star A) \<longleftrightarrow> (\<exists>u v. c # u \<in> A \<and> v \<in> star A \<and> w = u @ v)" for w
    unfolding conc_def by blast
  then show ?thesis
    by (auto simp: star_Cons_iff)
qed

lemma nullable_iff: "nullable r \<longleftrightarrow> [] \<in> lang r"
  by (induction r) (auto simp: Nil_in_conc intro: star.star_empty)

lemma lang_deriv: "lang (deriv c r) = {w. c # w \<in> lang r}"
proof (induction r)
  case (Seq r s)
  then show ?case by (simp add: conc_deriv nullable_iff)
next
  case (Star r)
  then show ?case by (simp add: star_deriv)
next
  case (Plus r)
  have "{w. c # w \<in> conc (lang r) (star (lang r))}
      = conc {u. c # u \<in> lang r} (star (lang r)) \<union>
        (if [] \<in> lang r then conc {u. c # u \<in> lang r} (star (lang r)) else {})"
    by (simp only: conc_deriv star_deriv)
  with Plus show ?case by simp
qed auto

theorem test_iff_lang: "test r s \<longleftrightarrow> s \<in> lang r"
  by (induction s arbitrary: r) (simp_all add: nullable_iff lang_deriv)

lemma star_alphabet: "w \<in> star A \<Longrightarrow> (\<And>x. x \<in> A \<Longrightarrow> set x \<subseteq> S) \<Longrightarrow> set w \<subseteq> S"
  by (induction rule: star.induct) auto

lemma lang_alphabet: "w \<in> lang r \<Longrightarrow> set w \<subseteq> alphabet r"
proof (induction r arbitrary: w)
  case (Seq r s)
  then show ?case by (fastforce simp: conc_def)
next
  case (Star r)
  then show ?case using star_alphabet [of w "lang r" "alphabet r"] by auto
next
  case (Plus r)
  then obtain x y where "w = x @ y" "x \<in> lang r" "y \<in> star (lang r)" by (auto simp: conc_def)
  with Plus.IH star_alphabet [of y "lang r" "alphabet r"] show ?case by auto
qed auto

subsection \<open>Trimming and case folding\<close>

lemma trim_id: "s \<noteq> [] \<Longrightarrow> \<not> isWhiteSpace (hd s) \<Longrightarrow> \<not> isWhiteSpace (last s) \<Longrightarrow> trim s = s"
proof -
  assume s: "s \<noteq> []" and h: "\<not> isWhiteSpace (hd s)" and l: "\<not> isWhiteSpace (last s)"
  from s h have 1: "dropWhile isWhiteSpace s = s" by (cases s) simp_all
  from s l have "\<not> isWhiteSpace (hd (rev s))" by (simp add: hd_rev)
  with s have 2: "dropWhile isWhiteSpace (rev s) = rev s" by (cases "rev s") simp_all
  show ?thesis by (simp add: trim_def 1 2)
qed

lemma trim_ends:
  assumes "trim s \<noteq> []"
  shows "\<not> isWhiteSpace (hd (trim s))" and "\<not> isWhiteSpace (last (trim s))"
proof -
  let ?a = "dropWhile isWhiteSpace s"
  let ?b = "dropWhile isWhiteSpace (rev ?a)"
  have t: "trim s = rev ?b" by (simp add: trim_def)
  with assms have b: "?b \<noteq> []" by simp
  then have "\<not> isWhiteSpace (hd ?b)" by (rule hd_dropWhile)
  with b show "\<not> isWhiteSpace (last (trim s))" by (simp add: t last_rev)
  have a: "?a \<noteq> []"
  proof
    assume "?a = []"
    then have "?b = []" by (simp only: rev.simps dropWhile.simps)
    with b show False by contradiction
  qed
  then have ha: "\<not> isWhiteSpace (hd ?a)" by (rule hd_dropWhile)
  obtain ws where ws: "rev ?a = ws @ ?b" by (metis takeWhile_dropWhile_id)
  then have "?a = rev ?b @ rev ws" by (metis rev_append rev_rev_ident)
  with b have "hd ?a = hd (rev ?b)" by (metis hd_append rev_is_Nil_conv)
  with ha show "\<not> isWhiteSpace (hd (trim s))" by (simp add: t)
qed

lemma trim_trim: "trim (trim s) = trim s"
proof (cases "trim s = []")
  case True
  have "trim [] = []" by (simp add: trim_def)
  with True show ?thesis by (simp only:)
next
  case False
  then show ?thesis by (intro trim_id trim_ends)
qed

lemma toLowerChar_fixed:
  "isWhiteSpace c \<or> isLineTerminator c \<or> c \<in> set ''+-'' \<Longrightarrow> toLowerChar c = c"
  by (auto simp: toLowerChar_def isWhiteSpace_def isLineTerminator_def Let_def)

lemma lower_letter_plain:
  assumes "toLowerChar c \<in> set ''abcdefghijklmnopqrstuvwxyz''"
  shows "\<not> isWhiteSpace c" "\<not> isLineTerminator c" "c \<noteq> CHR ''+''" "c \<noteq> CHR ''-''"
proof -
  have n: "\<not> (isWhiteSpace d \<or> isLineTerminator d \<or> d \<in> set ''+-'')"
    if "d \<in> set ''abcdefghijklmnopqrstuvwxyz''" for d
    using that by (auto simp: isWhiteSpace_def isLineTerminator_def)
  have "\<not> (isWhiteSpace c \<or> isLineTerminator c \<or> c \<in> set ''+-'')"
  proof
    assume a: "isWhiteSpace c \<or> isLineTerminator c \<or> c \<in> set ''+-''"
    then have "toLowerChar c = c" by (rule toLowerChar_fixed)
    with assms n [of c] a show False by simp
  qed
  then show "\<not> isWhiteSpace c" "\<not> isLineTerminator c" "c \<noteq> CHR ''+''" "c \<noteq> CHR ''-''"
    by simp_all
qed

subsection \<open>The sign and body split\<close>

lemma star_singletons: "star {[c] | c. P c} = {s. list_all P s}"
proof (intro set_eqI iffI)
  fix s assume "s \<in> star {[c] | c. P c}"
  then show "s \<in> {s. list_all P s}" by (induction rule: star.induct) auto
next
  fix s assume "s \<in> {s. list_all P s}"
  then have "list_all P s" by simp
  then show "s \<in> star {[c] | c. P c}"
  proof (induction s)
    case Nil
    show ?case by (rule star.star_empty)
  next
    case (Cons c s)
    then have "[c] \<in> {[c] | c. P c}" "s \<in> star {[c] | c. P c}" by simp_all
    then have "[c] @ s \<in> star {[c] | c. P c}" by (rule star.star_step)
    then show ?case by simp
  qed
qed

lemma test_signBodyRe: "test signBodyRe s = (\<not> list_ex isLineTerminator s)"
proof -
  have "s \<in> lang signBodyRe \<longleftrightarrow> list_all (\<lambda>c. \<not> isLineTerminator c) s"
  proof
    assume "s \<in> lang signBodyRe"
    then have "set s \<subseteq> alphabet signBodyRe" by (rule lang_alphabet)
    moreover have "alphabet signBodyRe \<subseteq> {c. \<not> isLineTerminator c}"
      by (auto simp: signBodyRe_def isLineTerminator_def)
    ultimately show "list_all (\<lambda>c. \<not> isLineTerminator c) s"
      by (auto simp: list_all_iff)
  next
    assume "list_all (\<lambda>c. \<not> isLineTerminator c) s"
    then have "s \<in> star {[c] | c. \<not> isLineTerminator c}" by (simp add: star_singletons)
    then have "[] @ s \<in> conc (insert [] (lang (OneOf ''+-''))) (star {[c] | c. \<not> isLineTerminator c})"
      unfolding conc_def by blast
    then show "s \<in> lang signBodyRe" by (simp add: signBodyRe_def)
  qed
  then show ?thesis by (simp add: test_iff_lang list_ex_iff list_all_iff)
qed

lemma matchSignBody_eq:
  "matchSignBody text =
     (if list_ex isLineTerminator text then None
      else case text of
             [] \<Rightarrow> Some ([], [])
           | c # r \<Rightarrow> if c = CHR ''+'' \<or> c = CHR ''-'' then Some ([c], r) else Some ([], text))"
  by (auto simp: matchSignBody_def test_signBodyRe split: list.splits)

lemma inf_prefix_dead:
  "startsWith ''inf'' cmp \<Longrightarrow> length cmp < 3 \<Longrightarrow> startsWith ''infinity'' cmp \<and> length cmp < length ''infinity''"
proof -
  assume a: "startsWith ''inf'' cmp" and l: "length cmp < 3"
  from l have "length cmp = 0 \<or> length cmp = 1 \<or> length cmp = 2" by arith
  with a show ?thesis by (auto simp: startsWith_def)
qed

subsection \<open>The special-token blocks\<close>

lemma parseSpecialNaN_results:
  "parseSpecialNaN text o' sign body cmp = Some r \<Longrightarrow>
     r = Valid Number_NaN (sign @ ''NaN'') \<or> r = Incomplete ''incomplete NaN token'' text"
  by (auto simp: parseSpecialNaN_def split: if_splits)

lemma parseSpecialInfinity_results:
  "parseSpecialInfinity text o' sign body cmp = Some r \<Longrightarrow>
     r = Valid (if sign = ''-'' then Number_NegInfinity else Number_Infinity) (sign @ ''Infinity'') \<or>
     r = Incomplete ''incomplete Infinity token'' text"
proof -
  assume a: "parseSpecialInfinity text o' sign body cmp = Some r"
  have dead: "startsWith ''infinity'' cmp \<and> length cmp < length ''infinity''"
    if "startsWith ''inf'' cmp \<and> length cmp < 3"
    using that by (intro inf_prefix_dead) simp_all
  show ?thesis
  proof (cases "startsWith ''inf'' cmp \<and> length cmp < 3")
    case True
    with dead have "startsWith ''infinity'' cmp \<and> length cmp < length ''infinity''" by simp
    with a show ?thesis
      by (auto simp: parseSpecialInfinity_def Let_def split: if_splits)
  next
    case False
    with a show ?thesis
      by (auto simp: parseSpecialInfinity_def Let_def split: if_splits)
  qed
qed

lemma parseSpecial_Some:
  assumes "parseSpecial text o' = Some r"
  obtains sign body where "matchSignBody text = Some (sign, body)"
    and "parseSpecialNaN text o' sign body
           (if RequiredParseOptions.caseInsensitiveSpecials o' then toLowerCase body else body) = Some r \<or>
         parseSpecialNaN text o' sign body
           (if RequiredParseOptions.caseInsensitiveSpecials o' then toLowerCase body else body) = None \<and>
         parseSpecialInfinity text o' sign body
           (if RequiredParseOptions.caseInsensitiveSpecials o' then toLowerCase body else body) = Some r"
proof (cases "matchSignBody text")
  case None
  with assms show ?thesis by (simp add: parseSpecial_def)
next
  case (Some sb)
  obtain sign body where sb: "sb = (sign, body)" by (cases sb)
  let ?cmp = "if RequiredParseOptions.caseInsensitiveSpecials o' then toLowerCase body else body"
  from assms have
    "(case parseSpecialNaN text o' sign body ?cmp of
        Some result \<Rightarrow> Some result
      | None \<Rightarrow> parseSpecialInfinity text o' sign body ?cmp) = Some r"
    unfolding parseSpecial_def Some sb by (simp add: Let_def)
  then have "parseSpecialNaN text o' sign body ?cmp = Some r \<or>
         parseSpecialNaN text o' sign body ?cmp = None \<and>
         parseSpecialInfinity text o' sign body ?cmp = Some r"
    by (cases "parseSpecialNaN text o' sign body ?cmp") simp_all
  with Some sb that show ?thesis by blast
qed

lemma parseSpecial_no_Inf_token:
  "parseSpecial text o' \<noteq> Some (Incomplete ''incomplete Inf token'' t)"
proof
  assume a: "parseSpecial text o' = Some (Incomplete ''incomplete Inf token'' t)"
  then obtain sign body cmp where
    "parseSpecialNaN text o' sign body cmp = Some (Incomplete ''incomplete Inf token'' t) \<or>
     parseSpecialInfinity text o' sign body cmp = Some (Incomplete ''incomplete Inf token'' t)"
    by (rule parseSpecial_Some) blast
  then show False
    using parseSpecialNaN_results [of "text" "o'" sign body cmp "Incomplete ''incomplete Inf token'' t"]
      parseSpecialInfinity_results [of "text" "o'" sign body cmp "Incomplete ''incomplete Inf token'' t"]
    by auto
qed

lemma isIncompleteNumberToken_reasons:
  "isIncompleteNumberToken text o' = Some r \<Longrightarrow>
     r \<in> {''sign only'', ''dot only'', ''exponent marker only'', ''exponent sign only''}"
  by (auto simp: isIncompleteNumberToken_def split: if_splits)


subsection \<open>Evaluating the classifier on a literal\<close>

lemmas parse_eval =
  ParseFloatingInput_def mergeOptions_def defaultOptions_def noOptions_def trim_def
  isWhiteSpace_def startsWith_def parseSpecial_def parseSpecialNaN_def parseSpecialInfinity_def
  matchSignBody_def signBodyRe_def
  isLineTerminator_def toLowerCase_def toLowerChar_def isAlphaOnly_def alphaOnlyRe_def
  inRange_def isIncompleteNumberToken_def exponentMarkerRe_def exponentSignRe_def
  mantissaRe_def digit_def isValidDecimalNumberSyntax_def decimalNumberRe_def
  normalizeNumericText_def sliceFrom_def Let_def


lemmas number_eval =
  Number_def trim_def isWhiteSpace_def parseNonDecimal_def parseUnsignedDecimal_def
  parseSignedInteger_def parseDigits_def isDigit_def inRange_def digitsValue_def digitValue_def
  Let_def

lemma Number_one: "Number ''1.0'' = 0x3FF0000000000000"
  apply (simp add: number_eval)
  apply (simp add: roundToDouble_def mkDouble_def bitLength.simps Let_def)
  done

lemma Number_minus_five_quarters: "Number ''-1.25'' = 0xBFF4000000000000"
  apply (simp add: number_eval)
  apply (simp add: roundToDouble_def mkDouble_def bitLength.simps Let_def)
  done

lemma parse_one: "ParseFloatingInput ''1.0'' noOptions = Valid 0x3FF0000000000000 ''1.0''"
  by (simp add: parse_eval Number_one Number_isNaN_def Number_isFinite_def)

lemma parse_minus_five_quarters:
  "ParseFloatingInput ''-1.25'' noOptions = Valid 0xBFF4000000000000 ''-1.25''"
  by (simp add: parse_eval Number_minus_five_quarters Number_isNaN_def Number_isFinite_def)

section \<open>Claims about the lexical classifier\<close>

text \<open>
  Claim C3. With default options, \<open>ParseFloatingInput\<close> classifies the boundary literals
  as: \<open>""\<close> Incomplete \<open>"empty"\<close>; \<open>"-"\<close> Incomplete \<open>"sign only"\<close>; \<open>"."\<close> Incomplete
  \<open>"dot only"\<close>; \<open>"1e"\<close> Incomplete \<open>"exponent marker only"\<close>; \<open>"1e-"\<close> Incomplete
  \<open>"exponent sign only"\<close>; \<open>"infi"\<close> Incomplete \<open>"incomplete Infinity token"\<close>; and each
  of \<open>"1ee3"\<close>, \<open>"--1"\<close>, \<open>"e3"\<close>, \<open>"1e1.2"\<close> Invalid (with reason
  \<open>"invalid numeric syntax"\<close>).
\<close>

theorem C3_boundary_literals:
  "ParseFloatingInput '''' noOptions = Incomplete ''empty'' '''' \<and>
   ParseFloatingInput ''-'' noOptions = Incomplete ''sign only'' ''-'' \<and>
   ParseFloatingInput ''.'' noOptions = Incomplete ''dot only'' ''.'' \<and>
   ParseFloatingInput ''1e'' noOptions = Incomplete ''exponent marker only'' ''1e'' \<and>
   ParseFloatingInput ''1e-'' noOptions = Incomplete ''exponent sign only'' ''1e-'' \<and>
   ParseFloatingInput ''infi'' noOptions = Incomplete ''incomplete Infinity token'' ''infi'' \<and>
   ParseFloatingInput ''1ee3'' noOptions = Invalid ''invalid numeric syntax'' ''1ee3'' \<and>
   ParseFloatingInput ''--1'' noOptions = Invalid ''invalid numeric syntax'' ''--1'' \<and>
   ParseFloatingInput ''e3'' noOptions = Invalid ''invalid numeric syntax'' ''e3'' \<and>
   ParseFloatingInput ''1e1.2'' noOptions = Invalid ''invalid numeric syntax'' ''1e1.2''"
proof (intro conjI)
  show "ParseFloatingInput '''' noOptions = Incomplete ''empty'' ''''"
    by (simp add: parse_eval)
  show "ParseFloatingInput ''-'' noOptions = Incomplete ''sign only'' ''-''"
    by (simp add: parse_eval)
  show "ParseFloatingInput ''.'' noOptions = Incomplete ''dot only'' ''.''"
    by (simp add: parse_eval)
  show "ParseFloatingInput ''1e'' noOptions = Incomplete ''exponent marker only'' ''1e''"
    by (simp add: parse_eval)
  show "ParseFloatingInput ''1e-'' noOptions = Incomplete ''exponent sign only'' ''1e-''"
    by (simp add: parse_eval)
  show "ParseFloatingInput ''infi'' noOptions = Incomplete ''incomplete Infinity token'' ''infi''"
    by (simp add: parse_eval)
  show "ParseFloatingInput ''1ee3'' noOptions = Invalid ''invalid numeric syntax'' ''1ee3''"
    by (simp add: parse_eval)
  show "ParseFloatingInput ''--1'' noOptions = Invalid ''invalid numeric syntax'' ''--1''"
    by (simp add: parse_eval)
  show "ParseFloatingInput ''e3'' noOptions = Invalid ''invalid numeric syntax'' ''e3''"
    by (simp add: parse_eval)
  show "ParseFloatingInput ''1e1.2'' noOptions = Invalid ''invalid numeric syntax'' ''1e1.2''"
    by (simp add: parse_eval)
qed


text \<open>
  Claim C5. On the concrete literals: \<open>ParseFloatingInput("1.0")\<close> is Valid with value 1.0
  (the pattern \<open>0x3FF0000000000000\<close>) and normalized text \<open>"1.0"\<close>;
  \<open>ParseFloatingInput("-1.25")\<close> is Valid with value -1.25 (the pattern
  \<open>0xBFF4000000000000\<close>) and normalized text \<open>"-1.25"\<close>; \<open>float32Bits(1.0).hex\<close> is
  \<open>"3f800000"\<close>, \<open>float64Bits(1.0).hex\<close> is \<open>"3ff0000000000000"\<close> and
  \<open>float32Bits(-1.25).hex\<close> is \<open>"bfa00000"\<close>.
\<close>

theorem C5_literal_scenarios:
  "ParseFloatingInput ''1.0'' noOptions = Valid 0x3FF0000000000000 ''1.0'' \<and>
   doubleValue 0x3FF0000000000000 = 1 \<and>
   ParseFloatingInput ''-1.25'' noOptions = Valid 0xBFF4000000000000 ''-1.25'' \<and>
   doubleValue 0xBFF4000000000000 = - 5 / 4 \<and>
   (\<exists>r. float32Bits 0x3FF0000000000000 = Some r \<and> Float32BitsInfo.hex r = ''3f800000'') \<and>
   (\<exists>r. float64Bits 0x3FF0000000000000 = Some r \<and> Float64BitsInfo.hex r = ''3ff0000000000000'') \<and>
   (\<exists>r. float32Bits 0xBFF4000000000000 = Some r \<and> Float32BitsInfo.hex r = ''bfa00000'')"
proof (intro conjI)
  show "ParseFloatingInput ''1.0'' noOptions = Valid 0x3FF0000000000000 ''1.0''"
    by (rule parse_one)
  show "doubleValue 0x3FF0000000000000 = 1"
    by (simp add: doubleValue_def)
  show "ParseFloatingInput ''-1.25'' noOptions = Valid 0xBFF4000000000000 ''-1.25''"
    by (rule parse_minus_five_quarters)
  show "doubleValue 0xBFF4000000000000 = - 5 / 4"
    by (simp add: doubleValue_def)
  have h32: "Float32BitsInfo.hex (the (float32Bits v)) = digitsMSB 16 8 (unat (setFloat32 v))" for v
    by (rule float32Bits_fields(6))
  show "\<exists>r. float32Bits 0x3FF0000000000000 = Some r \<and> Float32BitsInfo.hex r = ''3f800000''"
  proof (intro exI conjI)
    show "float32Bits 0x3FF0000000000000 = Some (the (float32Bits 0x3FF0000000000000))"
      by (rule float32Bits_fields(1))
    show "Float32BitsInfo.hex (the (float32Bits 0x3FF0000000000000)) = ''3f800000''"
      unfolding h32 setFloat32_one by (simp add: digitsMSB_def digitChar_def upt_rec)
  qed
  show "\<exists>r. float64Bits 0x3FF0000000000000 = Some r \<and> Float64BitsInfo.hex r = ''3ff0000000000000''"
  proof (intro exI conjI)
    show "float64Bits 0x3FF0000000000000 = Some (the (float64Bits 0x3FF0000000000000))"
      by (rule float64Bits_fields(1))
    show "Float64BitsInfo.hex (the (float64Bits 0x3FF0000000000000)) = ''3ff0000000000000''"
      unfolding float64Bits_fields(7) by (simp add: digitsMSB_def digitChar_def upt_rec)
  qed
  show "\<exists>r. float32Bits 0xBFF4000000000000 = Some r \<and> Float32BitsInfo.hex r = ''bfa00000''"
  proof (intro exI conjI)
    show "float32Bits 0xBFF4000000000000 = Some (the (float32Bits 0xBFF4000000000000))"
      by (rule float32Bits_fields(1))
    show "Float32BitsInfo.hex (the (float32Bits 0xBFF4000000000000)) = ''bfa00000''"
      unfolding h32 setFloat32_minus_five_quarters by (simp add: digitsMSB_def digitChar_def upt_rec)
  qed
qed

text \<open>
  Claim C10. For every input string and every options value, \<open>ParseFloatingInput\<close> never
  returns an Incomplete outcome with reason \<open>"incomplete Inf token"\<close>: a proper prefix of
  \<open>"inf"\<close> shorter than 3 characters is a proper prefix of \<open>"infinity"\<close> and is reported
  by the check before it as \<open>"incomplete Infinity token"\<close>.
\<close>

theorem C10_no_incomplete_Inf_token:
  "ParseFloatingInput input opts \<noteq> Incomplete ''incomplete Inf token'' t"
proof (cases "parseSpecial (trim input) (mergeOptions defaultOptions opts)")
  case (Some r)
  with parseSpecial_no_Inf_token [of "trim input" "mergeOptions defaultOptions opts" t]
  have "r \<noteq> Incomplete ''incomplete Inf token'' t" by simp
  with Some show ?thesis
    by (simp add: ParseFloatingInput_def Let_def)
next
  case None
  show ?thesis
  proof (cases "isIncompleteNumberToken (trim input) (mergeOptions defaultOptions opts)")
    case (Some x)
    from isIncompleteNumberToken_reasons [OF this] have "x \<noteq> ''incomplete Inf token''" by auto
    with None Some show ?thesis
      by (simp add: ParseFloatingInput_def Let_def)
  next
    case inc: None
    with None show ?thesis
      by (simp add: ParseFloatingInput_def Let_def)
  qed
qed

end
